theory Spec2Isabelle
  imports Complex_Main "HOL-Library.Log_Nat"
begin

section \<open>Configuration (midi\_recorder.py, lines 21--29)\<close>

definition SESSION_TIMEOUT :: real where
  "SESSION_TIMEOUT = 5"

definition DEFAULT_TEMPO :: int where
  "DEFAULT_TEMPO = 500000"

definition TICKS_PER_BEAT :: int where
  "TICKS_PER_BEAT = 480"

definition LOW_BLACK_NOTE :: int where
  "LOW_BLACK_NOTE = 22"

definition HIGH_BLACK_NOTE :: int where
  "HIGH_BLACK_NOTE = 106"

definition SHORTCUT_TIMEOUT :: real where
  "SHORTCUT_TIMEOUT = 1"

section \<open>Data\<close>

text \<open>
  The message types of the MIDI library the recorder reads from. The recorder only
  ever compares \<open>msg.type\<close> with \<open>note_on\<close>, \<open>note_off\<close>, \<open>clock\<close> and
  \<open>active_sensing\<close>.
\<close>

datatype mtype =
    note_off | note_on | polytouch | control_change | program_change | aftertouch
  | pitchwheel | sysex | quarter_frame | songpos | song_select | tune_request
  | clock | start | continue | stop | active_sensing | reset

text \<open>
  A message: its type, the note and velocity (read by the recorder for note messages
  only) and the \<open>time\<close> attribute, which \<open>write_message\<close> overwrites with the tick
  delta on the copy it appends to the track.
\<close>

record message =
  msg_type :: mtype
  msg_note :: int
  msg_velocity :: int
  msg_time :: int

text \<open>An entry of a track: the \<open>set_tempo\<close> meta message (tempo, time) or a message.\<close>

datatype track_msg = MetaMessage_set_tempo int int | Message message

text \<open>
  A saved file: where \<open>current_file.save\<close> wrote it, and what it held at that moment
  (the resolution and the tracks).
\<close>

record midi_file =
  file_path :: string
  ticks_per_beat :: int
  tracks :: "track_msg list list"

text \<open>The dictionaries \<open>low_note_state\<close> and \<open>high_note_state\<close>.\<close>

record note_state =
  count :: int
  buffer :: "(message \<times> real) list"
  last_time :: real

text \<open>
  The fields of \<open>MidiRecorder\<close> that the capture engine reads or writes, and two logs of
  its effects on the outside: the files saved and the governor commands issued.
  Timestamps are Python floats (IEEE 754 doubles); a timestamp is modelled as the real
  number the double stands for. The tick conversion rounds as the float operations of
  \<open>write_message\<close> do (\<open>fl\<close>, below); the differences that are tested against the two
  timeouts are taken exactly. \<open>current_file\<close> holds the resolution of the open file; its single track
  is the object \<open>current_track\<close>, so the file's content is read from \<open>current_track\<close>
  when it is saved. The port handle and the logger are left out.
\<close>

record recorder =
  recording :: bool
  last_activity :: "real option"
  current_file :: "int option"
  current_track :: "track_msg list option"
  session_start_time :: "real option"
  first_message_time :: "real option"
  last_message_time :: "real option"
  running :: bool
  in_low_power :: bool
  message_queue :: "(message \<times> real) list"
  low_note_state :: note_state
  high_note_state :: note_state
  saved_files :: "midi_file list"
  governor_log :: "string list"

text \<open>
  What a call reads from the outside world: \<open>time.time()\<close>, \<open>time.perf_counter()\<close> and
  the path \<open>create_session_path\<close> builds from \<open>datetime.now()\<close>, without its extension
  \<open>.mid\<close>. All reads of one clock within one top-level call are given the same value.
\<close>

record env =
  time_time :: real
  perf_counter :: real
  session_stem :: string

datatype error = TypeError

text \<open>
  A call either returns, or raises with the recorder as the statements before the raise
  left it (the main loop catches the exception and carries on with that recorder).
\<close>

type_synonym 'a result = "(error \<times> recorder) + 'a"

datatype reserved = Low | High

section \<open>The recorder\<close>

definition empty_state :: note_state where
  "empty_state = \<lparr>count = 0, buffer = [], last_time = 0\<rparr>"

text \<open>\<open>__init__\<close>, lines 35--48.\<close>

definition init :: recorder where
  "init = \<lparr>recording = False, last_activity = None, current_file = None,
            current_track = None, session_start_time = None, first_message_time = None,
            last_message_time = None, running = True, in_low_power = False,
            message_queue = [], low_note_state = empty_state,
            high_note_state = empty_state, saved_files = [], governor_log = []\<rparr>"

text \<open>Python's truth value of an optional float: \<open>None\<close> and \<open>0.0\<close> are false.\<close>

definition truthy :: "real option \<Rightarrow> bool" where
  "truthy x = (case x of None \<Rightarrow> False | Some t \<Rightarrow> t \<noteq> 0)"

text \<open>Python's \<open>int\<close> on a float truncates towards zero.\<close>

definition py_int :: "real \<Rightarrow> int" where
  "py_int x = (if 0 \<le> x then \<lfloor>x\<rfloor> else \<lceil>x\<rceil>)"

text \<open>\<open>midi_callback\<close>, lines 79--84.\<close>

definition midi_callback :: "env \<Rightarrow> message \<Rightarrow> recorder \<Rightarrow> recorder" where
  "midi_callback e msg r = r\<lparr>message_queue := message_queue r @ [(msg, perf_counter e)]\<rparr>"

text \<open>\<open>start_recording\<close>, lines 129--151.\<close>

definition tempo_msg :: track_msg where
  "tempo_msg = MetaMessage_set_tempo DEFAULT_TEMPO 0"

definition start_recording :: "env \<Rightarrow> recorder \<Rightarrow> recorder" where
  "start_recording e r =
     (if recording r then r
      else r\<lparr>session_start_time := Some (perf_counter e),
             last_activity := Some (time_time e),
             first_message_time := None,
             last_message_time := None,
             current_file := Some TICKS_PER_BEAT,
             current_track := Some [tempo_msg],
             recording := True,
             in_low_power := False\<rparr>)"

text \<open>\<open>enter_low_power_mode\<close> and \<open>exit_low_power_mode\<close>, lines 186--208.\<close>

definition enter_low_power_mode :: "recorder \<Rightarrow> recorder" where
  "enter_low_power_mode r =
     (if \<not> in_low_power r
      then r\<lparr>in_low_power := True, governor_log := governor_log r @ [''powersave'']\<rparr>
      else r)"

definition exit_low_power_mode :: "recorder \<Rightarrow> recorder" where
  "exit_low_power_mode r =
     (if in_low_power r
      then r\<lparr>in_low_power := False, governor_log := governor_log r @ [''ondemand'']\<rparr>
      else r)"

text \<open>
  Float arithmetic. The result of an operation on doubles is the exact result rounded to
  the nearest number with a significand of 53 bits, ties going to the even significand.
  \<open>expo x\<close> is the exponent of \<open>x\<close>, the \<open>e\<close> with \<open>2^e \<le> |x| < 2^(e+1)\<close>; \<open>round_even\<close>
  rounds to the nearest integer, ties to even; \<open>fl\<close> rounds a real to 53 bits.

  The range of the exponent is not bounded in \<open>fl\<close>. At the lower end this changes
  nothing in the tick conversion: from doubles, its operations give a result below
  \<open>2^-1022\<close> only exactly. At the upper end a double overflows to infinity, on which
  \<open>int\<close> raises \<open>OverflowError\<close>; that takes timestamps more than \<open>10^305\<close> seconds
  apart and is not modelled. What is proved of the values of the tick conversion is
  stated for timestamps less than \<open>2^1000\<close> seconds apart.
\<close>

definition expo :: "real \<Rightarrow> int" where
  "expo x = (if 1 \<le> \<bar>x\<bar> then bitlen \<lfloor>\<bar>x\<bar>\<rfloor> - 1 else - bitlen (\<lceil>1 / \<bar>x\<bar>\<rceil> - 1))"

definition round_even :: "real \<Rightarrow> int" where
  "round_even y =
     (let n = \<lfloor>y\<rfloor>; f = y - real_of_int n
      in if f < 1/2 then n else if 1/2 < f then n + 1 else if even n then n else n + 1)"

definition fl :: "real \<Rightarrow> real" where
  "fl x = (if x = 0 then 0
           else real_of_int (round_even (x / 2 powi (expo x - 52))) * 2 powi (expo x - 52))"

text \<open>
  The tick delta \<open>write_message\<close> computes, lines 213--220, from the time of the last
  written message and the timestamp of the message: a float subtraction (or the integer
  0), the float division \<open>1000000.0 / DEFAULT_TEMPO\<close>, two float multiplications, \<open>int\<close>
  and \<open>max\<close>.
\<close>

definition delta_ticks :: "real option \<Rightarrow> real \<Rightarrow> int" where
  "delta_ticks last_msg_time msg_timestamp =
     (let delta_seconds = (case last_msg_time of None \<Rightarrow> 0 | Some l \<Rightarrow> fl (msg_timestamp - l));
          beats_per_second = fl (1000000 / real_of_int DEFAULT_TEMPO)
      in max 0 (py_int (fl (fl (delta_seconds * real_of_int TICKS_PER_BEAT) * beats_per_second))))"

text \<open>\<open>write_message\<close>, lines 210--225.\<close>

definition write_message :: "message \<Rightarrow> real \<Rightarrow> recorder \<Rightarrow> recorder" where
  "write_message msg msg_timestamp r =
     (case current_track r of
        None \<Rightarrow> r
      | Some tr \<Rightarrow>
          r\<lparr>current_track :=
               Some (tr @ [Message (msg\<lparr>msg_time := delta_ticks (last_message_time r) msg_timestamp\<rparr>)]),
            last_message_time := Some msg_timestamp\<rparr>)"

text \<open>
  \<open>flush_buffer\<close>, lines 227--232. The dictionary it is given is one of the recorder's two,
  named here by \<open>Low\<close> or \<open>High\<close>. \<open>write_all\<close> is its loop.
\<close>

fun get_state :: "reserved \<Rightarrow> recorder \<Rightarrow> note_state" where
  "get_state Low r = low_note_state r"
| "get_state High r = high_note_state r"

fun set_state :: "reserved \<Rightarrow> note_state \<Rightarrow> recorder \<Rightarrow> recorder" where
  "set_state Low s r = r\<lparr>low_note_state := s\<rparr>"
| "set_state High s r = r\<lparr>high_note_state := s\<rparr>"

fun write_all :: "(message \<times> real) list \<Rightarrow> recorder \<Rightarrow> recorder" where
  "write_all [] r = r"
| "write_all ((m, ts) # rest) r = write_all rest (write_message m ts r)"

definition flush_buffer :: "reserved \<Rightarrow> recorder \<Rightarrow> recorder" where
  "flush_buffer w r =
     set_state w \<lparr>count = 0, buffer = [], last_time = 0\<rparr>
       (write_all (buffer (get_state w r)) r)"

text \<open>\<open>flush_shortcut_buffers\<close>, lines 234--236.\<close>

definition flush_shortcut_buffers :: "recorder \<Rightarrow> recorder" where
  "flush_shortcut_buffers r = flush_buffer High (flush_buffer Low r)"

text \<open>
  \<open>stop_recording\<close>, lines 153--184, in three parts, since it calls
  \<open>process_message_queue\<close>, which calls it back (through \<open>handle_shortcuts\<close>) with
  \<open>skip_queue=True\<close> only. \<open>stop_recording_finish\<close> is lines 166--184;
  \<open>stop_recording_skip_queue\<close> is the function at \<open>skip_queue=True\<close>;
  \<open>stop_recording\<close>, further down, is the whole function.

  Line 172 raises when there is a file but no track, and line 179 when the first message
  time is set and the last is not; both after the statements before them have run.
\<close>

definition stop_recording_finish :: "env \<Rightarrow> string \<Rightarrow> bool \<Rightarrow> recorder \<Rightarrow> recorder result" where
  "stop_recording_finish e suffix skip_buffer r =
     (let r1 = (if \<not> skip_buffer then flush_shortcut_buffers r
                else r\<lparr>low_note_state := \<lparr>count = 0, buffer = [], last_time = 0\<rparr>,
                       high_note_state := \<lparr>count = 0, buffer = [], last_time = 0\<rparr>\<rparr>);
          done = (\<lambda>r'. r'\<lparr>current_file := None, current_track := None\<rparr>)
      in case current_file r1 of
           None \<Rightarrow> Inr (done r1)
         | Some tpb \<Rightarrow>
             (case current_track r1 of
                None \<Rightarrow> Inl (TypeError, r1)
              | Some tr \<Rightarrow>
                  if length tr > 1 then
                    (let path = (if suffix \<noteq> [] then session_stem e @ suffix @ ''.mid''
                                 else session_stem e @ ''.mid'');
                         r2 = r1\<lparr>saved_files := saved_files r1 @
                                  [\<lparr>file_path = path, ticks_per_beat = tpb, tracks = [tr]\<rparr>]\<rparr>
                     in if truthy (first_message_time r2) \<and> last_message_time r2 = None
                        then Inl (TypeError, r2)
                        else Inr (done r2))
                  else Inr (done r1)))"

definition stop_recording_skip_queue :: "env \<Rightarrow> string \<Rightarrow> bool \<Rightarrow> recorder \<Rightarrow> recorder result" where
  "stop_recording_skip_queue e suffix skip_buffer r =
     (if \<not> recording r then Inr r
      else stop_recording_finish e suffix skip_buffer (r\<lparr>recording := False, message_queue := []\<rparr>))"

text \<open>
  \<open>handle_shortcuts\<close>, lines 238--272. \<open>shortcut_body\<close> is the body of its loop for a
  reserved note that matches (lines 246--260), \<open>shortcut_loop\<close> the loop over the two
  reserved notes (\<open>None\<close> when it falls through), \<open>flush_counted\<close> the four lines that
  follow the loop and, once more, the \<open>if\<close>.
\<close>

definition shortcut_body :: "env \<Rightarrow> reserved \<Rightarrow> string \<Rightarrow> message \<Rightarrow> real \<Rightarrow> recorder \<Rightarrow> (bool \<times> recorder) result" where
  "shortcut_body e w suffix msg msg_timestamp r =
     (let r1 = (if msg_type msg = note_on \<and> count (get_state w r) > 0 \<and>
                   msg_timestamp - last_time (get_state w r) > SHORTCUT_TIMEOUT
                then flush_buffer w r else r);
          r2 = set_state w ((get_state w r1)\<lparr>buffer := buffer (get_state w r1) @ [(msg, msg_timestamp)]\<rparr>) r1
      in if msg_type msg = note_on then
           (let r3 = set_state w ((get_state w r2)\<lparr>count := count (get_state w r2) + 1,
                                                    last_time := msg_timestamp\<rparr>) r2
            in if count (get_state w r3) \<ge> 3 then
                 (case stop_recording_skip_queue e suffix True (r3\<lparr>message_queue := []\<rparr>) of
                    Inl x \<Rightarrow> Inl x
                  | Inr r4 \<Rightarrow> Inr (True, r4))
               else Inr (True, r3))
         else Inr (True, r2))"

fun shortcut_loop :: "env \<Rightarrow> (int \<times> reserved \<times> string) list \<Rightarrow> message \<Rightarrow> real \<Rightarrow> recorder \<Rightarrow> (bool \<times> recorder) result option" where
  "shortcut_loop e [] msg msg_timestamp r = None"
| "shortcut_loop e ((n, w, suffix) # rest) msg msg_timestamp r =
     (if msg_note msg = n then Some (shortcut_body e w suffix msg msg_timestamp r)
      else shortcut_loop e rest msg msg_timestamp r)"

definition flush_counted :: "recorder \<Rightarrow> recorder" where
  "flush_counted r =
     (let r1 = (if count (low_note_state r) > 0 then flush_buffer Low r else r)
      in if count (high_note_state r1) > 0 then flush_buffer High r1 else r1)"

definition handle_shortcuts :: "env \<Rightarrow> message \<Rightarrow> real \<Rightarrow> recorder \<Rightarrow> (bool \<times> recorder) result" where
  "handle_shortcuts e msg msg_timestamp r =
     (if msg_type msg \<in> {note_on, note_off} then
        (case shortcut_loop e [(LOW_BLACK_NOTE, Low, ''''), (HIGH_BLACK_NOTE, High, ''-bookmark'')]
                msg msg_timestamp r of
           Some res \<Rightarrow> res
         | None \<Rightarrow> Inr (False, flush_counted r))
      else Inr (False, flush_counted r))"

text \<open>\<open>process_midi_message\<close>, lines 274--289.\<close>

definition process_midi_message :: "env \<Rightarrow> message \<Rightarrow> real \<Rightarrow> recorder \<Rightarrow> recorder result" where
  "process_midi_message e msg msg_timestamp r =
     (if msg_type msg \<in> {clock, active_sensing} then Inr r
      else
        (let r1 = r\<lparr>last_activity := Some (time_time e)\<rparr>;
             r2 = (if \<not> recording r1
                   then (start_recording e r1)\<lparr>first_message_time := Some msg_timestamp\<rparr>
                   else r1);
             r3 = (if in_low_power r2 then exit_low_power_mode r2 else r2)
         in case handle_shortcuts e msg msg_timestamp r3 of
              Inl x \<Rightarrow> Inl x
            | Inr (handled, r4) \<Rightarrow>
                Inr (if \<not> handled then write_message msg msg_timestamp r4 else r4)))"

text \<open>
  \<open>process_message_queue\<close>, lines 291--303: the loop takes the message at the head of the
  queue and processes it, until the queue is empty. The number of messages processed,
  which no caller reads, is not returned. The loop ends because processing a message
  never adds to the queue.
\<close>

lemma write_message_queue [simp]: "message_queue (write_message m ts r) = message_queue r"
  by (simp add: write_message_def split: option.splits)

lemma write_all_queue [simp]: "message_queue (write_all xs r) = message_queue r"
  by (induction xs arbitrary: r) auto

lemma set_state_queue [simp]: "message_queue (set_state w s r) = message_queue r"
  by (cases w) auto

lemma flush_buffer_queue [simp]: "message_queue (flush_buffer w r) = message_queue r"
  by (simp add: flush_buffer_def)

lemma flush_counted_queue [simp]: "message_queue (flush_counted r) = message_queue r"
  by (simp add: flush_counted_def Let_def)

lemma stop_recording_finish_queue:
  "stop_recording_finish e suffix sb r = Inr r' \<Longrightarrow> message_queue r' = message_queue r"
  by (auto simp: stop_recording_finish_def Let_def flush_shortcut_buffers_def
           split: option.splits if_splits)

lemma stop_recording_skip_queue_queue:
  "stop_recording_skip_queue e suffix sb r = Inr r' \<Longrightarrow>
   length (message_queue r') \<le> length (message_queue r)"
  by (auto simp: stop_recording_skip_queue_def split: if_splits
           dest!: stop_recording_finish_queue)

lemma shortcut_body_queue:
  "shortcut_body e w suffix m ts r = Inr (h, r') \<Longrightarrow>
   length (message_queue r') \<le> length (message_queue r)"
  by (auto simp: shortcut_body_def Let_def split: if_splits sum.splits
           dest!: stop_recording_skip_queue_queue)

lemma handle_shortcuts_queue:
  "handle_shortcuts e m ts r = Inr (h, r') \<Longrightarrow>
   length (message_queue r') \<le> length (message_queue r)"
  by (auto simp: handle_shortcuts_def split: if_splits dest!: shortcut_body_queue)

lemma start_recording_queue [simp]: "message_queue (start_recording e r) = message_queue r"
  by (simp add: start_recording_def)

lemma exit_low_power_mode_queue [simp]:
  "message_queue (exit_low_power_mode r) = message_queue r"
  by (simp add: exit_low_power_mode_def)

lemma process_midi_message_queue:
  "process_midi_message e m ts r = Inr r' \<Longrightarrow>
   length (message_queue r') \<le> length (message_queue r)"
  by (auto simp: process_midi_message_def Let_def split: if_splits sum.splits
           dest!: handle_shortcuts_queue)

function process_message_queue :: "env \<Rightarrow> recorder \<Rightarrow> recorder result" where
  "process_message_queue e r =
     (case message_queue r of
        [] \<Rightarrow> Inr r
      | (msg, timestamp) # q \<Rightarrow>
          (case process_midi_message e msg timestamp (r\<lparr>message_queue := q\<rparr>) of
             Inl x \<Rightarrow> Inl x
           | Inr r' \<Rightarrow> process_message_queue e r'))"
  by pat_completeness auto
termination
  by (relation "measure (\<lambda>(e, r). length (message_queue r))")
     (auto dest!: process_midi_message_queue)

declare process_message_queue.simps [simp del]

text \<open>\<open>stop_recording\<close>, lines 153--184, whole.\<close>

definition stop_recording :: "env \<Rightarrow> string \<Rightarrow> bool \<Rightarrow> bool \<Rightarrow> recorder \<Rightarrow> recorder result" where
  "stop_recording e suffix skip_queue skip_buffer r =
     (if \<not> recording r then Inr r
      else
        (let r0 = r\<lparr>recording := False\<rparr>
         in case (if skip_queue then Inr (r0\<lparr>message_queue := []\<rparr>)
                  else process_message_queue e r0) of
              Inl x \<Rightarrow> Inl x
            | Inr r1 \<Rightarrow> stop_recording_finish e suffix skip_buffer r1))"

text \<open>\<open>check_session_timeout\<close>, lines 305--311.\<close>

definition check_session_timeout :: "env \<Rightarrow> recorder \<Rightarrow> recorder result" where
  "check_session_timeout e r =
     (if recording r \<and> truthy (last_activity r) then
        (if time_time e - the (last_activity r) > SESSION_TIMEOUT then
           (case stop_recording e '''' False False r of
              Inl x \<Rightarrow> Inl x
            | Inr r1 \<Rightarrow> Inr (enter_low_power_mode r1))
         else Inr r)
      else Inr r)"

text \<open>\<open>signal_handler\<close>, lines 72--77; the process exits after it.\<close>

definition signal_handler :: "env \<Rightarrow> recorder \<Rightarrow> recorder result" where
  "signal_handler e r = stop_recording e '''' False False (r\<lparr>running := False\<rparr>)"

text \<open>
  What happens to the recorder over its life: the port delivers a message
  (\<open>midi_callback\<close>), the main loop (\<open>run\<close>, lines 325--349) drains the queue or checks
  the session timeout, or a shutdown signal arrives. The main loop catches what its calls
  raise and goes on with the recorder as it is; nothing runs after the shutdown. Each
  of these is taken as one step, with what it reads from the outside.
\<close>

datatype call = Midi_callback message | Process_message_queue | Check_session_timeout
  | Signal_handler

definition caught :: "recorder result \<Rightarrow> recorder" where
  "caught x = (case x of Inl (err, r) \<Rightarrow> r | Inr r \<Rightarrow> r)"

fun step :: "recorder \<Rightarrow> env \<times> call \<Rightarrow> recorder" where
  "step r (e, c) =
     (if \<not> running r then r
      else case c of
             Midi_callback msg \<Rightarrow> midi_callback e msg r
           | Process_message_queue \<Rightarrow> caught (process_message_queue e r)
           | Check_session_timeout \<Rightarrow> caught (check_session_timeout e r)
           | Signal_handler \<Rightarrow> caught (signal_handler e r))"

definition run_calls :: "(env \<times> call) list \<Rightarrow> recorder" where
  "run_calls cs = foldl step init cs"

section \<open>Notions used to state the properties\<close>

text \<open>A sample of what a call reads from outside, and a message given by type, note and velocity.\<close>

definition e0 :: env where
  "e0 = \<lparr>time_time = 1000, perf_counter = 0, session_stem = ''session_120000''\<rparr>"

definition Msg :: "mtype \<Rightarrow> int \<Rightarrow> int \<Rightarrow> message" where
  "Msg t n v = \<lparr>msg_type = t, msg_note = n, msg_velocity = v, msg_time = 0\<rparr>"

text \<open>The double that Python reads the literal \<open>0.7\<close> as.\<close>

definition d07 :: real where
  "d07 = 3152519739159347 / 4503599627370496"

text \<open>
  The messages \<open>process_midi_message\<close> returns on at once; the runs in which the port
  delivers only such messages; the recorders that are the initial one apart from such
  messages in the queue and the running flag.
\<close>

definition ignored :: "message \<Rightarrow> bool" where
  "ignored m = (msg_type m = clock \<or> msg_type m = active_sensing)"

definition only_ignored :: "(env \<times> call) list \<Rightarrow> bool" where
  "only_ignored cs =
     list_all (\<lambda>(e, c). case c of Midi_callback m \<Rightarrow> ignored m | _ \<Rightarrow> True) cs"

definition untouched :: "recorder \<Rightarrow> bool" where
  "untouched r =
     (list_all (\<lambda>(m, ts). ignored m) (message_queue r) \<and>
      r\<lparr>message_queue := [], running := True\<rparr> = init)"

text \<open>The note and the file suffix that go with each of the two shortcut states.\<close>

fun reserved_note :: "reserved \<Rightarrow> int" where
  "reserved_note Low = LOW_BLACK_NOTE"
| "reserved_note High = HIGH_BLACK_NOTE"

fun reserved_suffix :: "reserved \<Rightarrow> string" where
  "reserved_suffix Low = ''''"
| "reserved_suffix High = ''-bookmark''"

text \<open>
  A recorder is well formed when it has a file exactly when it has a track, and a track
  with more than the tempo entry comes with the time of its last message. On such a
  recorder \<open>stop_recording\<close> does not raise.
\<close>

definition well_formed :: "recorder \<Rightarrow> bool" where
  "well_formed r =
     (case current_track r of
        None \<Rightarrow> current_file r = None
      | Some tr \<Rightarrow> current_file r \<noteq> None \<and> (1 < length tr \<longrightarrow> last_message_time r \<noteq> None))"


text \<open>
  The recorder after a stop that discards the queue and the shortcut buffers, started on
  the recorder \<open>r\<close>.
\<close>

definition stopped :: "env \<Rightarrow> string \<Rightarrow> recorder \<Rightarrow> recorder" where
  "stopped e suffix r =
     r\<lparr>recording := False, message_queue := [],
       low_note_state := \<lparr>count = 0, buffer = [], last_time = 0\<rparr>,
       high_note_state := \<lparr>count = 0, buffer = [], last_time = 0\<rparr>,
       saved_files := saved_files r @
         (case current_track r of
            None \<Rightarrow> []
          | Some tr \<Rightarrow>
              if 1 < length tr
              then [\<lparr>file_path = session_stem e @ suffix @ ''.mid'',
                     ticks_per_beat = the (current_file r), tracks = [tr]\<rparr>]
              else []),
       current_file := None, current_track := None\<rparr>"

text \<open>
  The first lines of \<open>process_midi_message\<close> on a recorder that is recording: the
  activity time is set and low-power mode is left.
\<close>

definition touch :: "env \<Rightarrow> recorder \<Rightarrow> recorder" where
  "touch e r =
     (if in_low_power r then exit_low_power_mode (r\<lparr>last_activity := Some (time_time e)\<rparr>)
      else r\<lparr>last_activity := Some (time_time e)\<rparr>)"


definition is_tap :: "reserved \<Rightarrow> message \<Rightarrow> bool" where
  "is_tap w m = (msg_type m = note_on \<and> msg_note m = reserved_note w)"

text \<open>A recorder in a session that has recorded one note so far.\<close>

definition playing :: recorder where
  "playing = init\<lparr>recording := True, last_activity := Some 1000,
                  current_file := Some TICKS_PER_BEAT,
                  current_track := Some [tempo_msg, Message (Msg note_on 60 64)],
                  session_start_time := Some 0, first_message_time := Some 10,
                  last_message_time := Some 10\<rparr>"


text \<open>
  A session with one recorded note in which the high note was tapped twice (both taps and
  a release are pending) and the low note twice.
\<close>

definition both_pending :: recorder where
  "both_pending =
     playing\<lparr>low_note_state := \<lparr>count = 2, buffer = [(Msg note_on 22 64, 12), (Msg note_on 22 64, 25/2)],
                                  last_time = 25/2\<rparr>,
             high_note_state := \<lparr>count = 2, buffer = [(Msg note_on 106 64, 11), (Msg note_off 106 0, 45/4),
                                    (Msg note_on 106 64, 23/2)], last_time = 23/2\<rparr>\<rparr>"

text \<open>The recorder with the velocity of every buffered message set to 0.\<close>

definition forget_velocity :: "recorder \<Rightarrow> recorder" where
  "forget_velocity r =
     r\<lparr>low_note_state := (low_note_state r)\<lparr>buffer :=
            map (\<lambda>(m, ts). (m\<lparr>msg_velocity := 0\<rparr>, ts)) (buffer (low_note_state r))\<rparr>,
       high_note_state := (high_note_state r)\<lparr>buffer :=
            map (\<lambda>(m, ts). (m\<lparr>msg_velocity := 0\<rparr>, ts)) (buffer (high_note_state r))\<rparr>\<rparr>"

text \<open>A press of the low note that overlaps a press of note 60, delivered and drained.\<close>

definition stranded_release :: "(env \<times> call) list" where
  "stranded_release =
     [(e0, Midi_callback (Msg note_on 22 64)),
      (e0\<lparr>perf_counter := 1/8\<rparr>, Midi_callback (Msg note_on 60 64)),
      (e0\<lparr>perf_counter := 1/4\<rparr>, Midi_callback (Msg note_off 22 0)),
      (e0\<lparr>perf_counter := 3/8\<rparr>, Midi_callback (Msg note_off 60 0)),
      (e0\<lparr>perf_counter := 3/8\<rparr>, Process_message_queue)]"

text \<open>
  Note 60 is pressed and the press is drained; six seconds later its release is delivered
  after the main loop has drained the queue and before the loop checks the session
  timeout.
\<close>

definition restart_in_stop :: "(env \<times> call) list" where
  "restart_in_stop =
     [(e0, Midi_callback (Msg note_on 60 64)),
      (e0, Process_message_queue),
      (e0\<lparr>perf_counter := 6, time_time := 1006\<rparr>, Midi_callback (Msg note_off 60 0)),
      (e0\<lparr>perf_counter := 6, time_time := 1006\<rparr>, Check_session_timeout)]"

text \<open>
  After that, the low note is tapped twice, half a second apart, note 64 is pressed a
  second and a half later, the queue is drained, and six seconds later the session
  times out.
\<close>

definition lost_taps :: "(env \<times> call) list" where
  "lost_taps = restart_in_stop @
     [(e0\<lparr>perf_counter := 10, time_time := 1010\<rparr>, Midi_callback (Msg note_on 22 64)),
      (e0\<lparr>perf_counter := 21/2, time_time := 2021/2\<rparr>, Midi_callback (Msg note_on 22 64)),
      (e0\<lparr>perf_counter := 12, time_time := 1012\<rparr>, Midi_callback (Msg note_on 64 64)),
      (e0\<lparr>perf_counter := 12, time_time := 1012\<rparr>, Process_message_queue),
      (e0\<lparr>perf_counter := 18, time_time := 1018\<rparr>, Check_session_timeout)]"

text \<open>
  The entries that writing a list of timestamped messages appends to a track, given the
  time of the last message written before.
\<close>

fun written :: "real option \<Rightarrow> (message \<times> real) list \<Rightarrow> track_msg list" where
  "written l [] = []"
| "written l ((m, ts) # rest) =
     Message (m\<lparr>msg_time := delta_ticks l ts\<rparr>) # written (Some ts) rest"

text \<open>The time of the last message written after writing such a list.\<close>

fun last_written :: "real option \<Rightarrow> (message \<times> real) list \<Rightarrow> real option" where
  "last_written l [] = l"
| "last_written l ((m, ts) # rest) = last_written (Some ts) rest"

text \<open>The other shortcut state.\<close>

fun other :: "reserved \<Rightarrow> reserved" where
  "other Low = High"
| "other High = Low"

text \<open>The time attribute of a track entry.\<close>

fun entry_time :: "track_msg \<Rightarrow> int" where
  "entry_time (MetaMessage_set_tempo tempo t) = t"
| "entry_time (Message m) = msg_time m"

text \<open>The ticks of a session: the sum of the times of the entries of its track.\<close>

definition session_ticks :: "recorder \<Rightarrow> int" where
  "session_ticks r =
     (case current_track r of None \<Rightarrow> 0 | Some tr \<Rightarrow> sum_list (map entry_time tr))"

text \<open>A number of ticks as seconds, at the tempo and resolution of the recorder.\<close>

definition seconds_of_ticks :: "int \<Rightarrow> real" where
  "seconds_of_ticks d =
     real_of_int d * (real_of_int DEFAULT_TEMPO / 1000000) / real_of_int TICKS_PER_BEAT"

text \<open>A session that has just started: recording, with the tempo entry only.\<close>

definition fresh :: recorder where
  "fresh = start_recording e0 init"

definition three_notes :: "(message \<times> real) list" where
  "three_notes = [(Msg note_on 60 64, 0), (Msg note_on 62 64, 1/512), (Msg note_on 64 64, 1/256)]"

text \<open>
  A track is in order when it starts with the tempo entry, every entry after it has a
  time of at least 0, and the first entry after it has time 0.
\<close>

definition track_ok :: "track_msg list \<Rightarrow> bool" where
  "track_ok tr =
     (case tr of
        [] \<Rightarrow> False
      | x # es \<Rightarrow> x = tempo_msg \<and> list_all (\<lambda>e. 0 \<le> entry_time e) es \<and>
                  (case es of [] \<Rightarrow> True | e # _ \<Rightarrow> entry_time e = 0))"

text \<open>
  The invariant of the recorder: it is well formed, its track (if any) is in order and
  holds the tempo entry only as long as no message time is recorded, and the tracks of
  all saved files are in order.
\<close>

definition session_inv :: "recorder \<Rightarrow> bool" where
  "session_inv r =
     (well_formed r \<and>
      (case current_track r of
         None \<Rightarrow> True
       | Some tr \<Rightarrow> track_ok tr \<and> (length tr = 1 \<longrightarrow> last_message_time r = None)) \<and>
      list_all (\<lambda>f. list_all track_ok (tracks f)) (saved_files r))"

text \<open>
  Two sessions: a note is pressed and released, the queue is drained, the session times
  out; later another note starts a second session.
\<close>

definition two_sessions :: "(env \<times> call) list" where
  "two_sessions =
     [(e0, Midi_callback (Msg note_on 60 64)),
      (e0\<lparr>perf_counter := 1/2\<rparr>, Midi_callback (Msg note_off 60 0)),
      (e0\<lparr>perf_counter := 1\<rparr>, Process_message_queue),
      (e0\<lparr>time_time := 1006\<rparr>, Check_session_timeout),
      (e0\<lparr>perf_counter := 20\<rparr>, Midi_callback (Msg note_on 62 64)),
      (e0\<lparr>perf_counter := 20, time_time := 1020\<rparr>, Process_message_queue)]"

section \<open>The two parts of \<open>stop_recording\<close>\<close>

lemma stop_recording_skip_queue_eq:
  "stop_recording e suffix True skip_buffer r = stop_recording_skip_queue e suffix skip_buffer r"
  by (simp add: stop_recording_def stop_recording_skip_queue_def)

section \<open>Float rounding\<close>

lemma round_even_close: "\<bar>real_of_int (round_even y) - y\<bar> \<le> 1/2"
  unfolding round_even_def Let_def by (auto; linarith)

lemma round_even_nonneg: "0 \<le> y \<Longrightarrow> 0 \<le> round_even y"
  unfolding round_even_def Let_def by (auto; linarith)

lemma round_even_nonpos: "y \<le> 0 \<Longrightarrow> round_even y \<le> 0"
  unfolding round_even_def Let_def by (auto; linarith)

lemma fl_zero [simp]: "fl 0 = 0"
  by (simp add: fl_def)

lemma fl_nonneg: "0 \<le> x \<Longrightarrow> 0 \<le> fl x"
  by (simp add: fl_def round_even_nonneg)

lemma fl_nonpos: "x \<le> 0 \<Longrightarrow> fl x \<le> 0"
proof -
  assume "x \<le> 0"
  then have "x / 2 powi (expo x - 52) \<le> 0"
    by (simp add: divide_nonpos_pos)
  then have "real_of_int (round_even (x / 2 powi (expo x - 52))) \<le> 0"
    by (simp add: round_even_nonpos)
  then show ?thesis
    by (simp add: fl_def mult_nonpos_nonneg)
qed

lemma expo_lower:
  assumes "x \<noteq> 0"
  shows "2 powi expo x \<le> \<bar>x\<bar>"
proof (cases "1 \<le> \<bar>x\<bar>")
  case True
  let ?n = "\<lfloor>\<bar>x\<bar>\<rfloor>"
  from True have n: "0 < ?n" by linarith
  then have b: "1 \<le> bitlen ?n"
    by (simp add: bitlen_ge_iff_power)
  from bitlen_bounds [OF n] have "(2::int) ^ nat (bitlen ?n - 1) \<le> ?n" ..
  then have "real_of_int (2 ^ nat (bitlen ?n - 1)) \<le> real_of_int ?n"
    by (simp only: of_int_le_iff)
  also have "\<dots> \<le> \<bar>x\<bar>" by linarith
  finally have "(2::real) ^ nat (bitlen ?n - 1) \<le> \<bar>x\<bar>" by simp
  moreover have "(2::real) powi (bitlen ?n - 1) = 2 ^ nat (bitlen ?n - 1)"
    using b by (simp add: power_int_nonneg_exp)
  ultimately show ?thesis
    using True by (simp add: expo_def)
next
  case False
  let ?m = "\<lceil>1 / \<bar>x\<bar>\<rceil> - 1"
  from False assms have x: "0 < \<bar>x\<bar>" "\<bar>x\<bar> < 1" by simp_all
  then have "1 < 1 / \<bar>x\<bar>" by simp
  then have m: "0 < ?m" by linarith
  from bitlen_bounds [OF m] have "?m < 2 ^ nat (bitlen ?m)" ..
  then have "\<lceil>1 / \<bar>x\<bar>\<rceil> \<le> 2 ^ nat (bitlen ?m)" by simp
  then have "real_of_int \<lceil>1 / \<bar>x\<bar>\<rceil> \<le> real_of_int (2 ^ nat (bitlen ?m))"
    by (simp only: of_int_le_iff)
  then have "1 / \<bar>x\<bar> \<le> 2 ^ nat (bitlen ?m)"
    by (simp add: ceiling_le_iff) 
  then have "1 \<le> 2 ^ nat (bitlen ?m) * \<bar>x\<bar>"
    using x(1) by (simp add: field_simps)
  then have "1 / 2 ^ nat (bitlen ?m) \<le> \<bar>x\<bar>"
    by (simp add: field_simps)
  moreover have "(2::real) powi (- bitlen ?m) = 1 / 2 ^ nat (bitlen ?m)"
    using bitlen_nonneg [of ?m] by (simp add: power_int_def field_simps)
  ultimately show ?thesis
    using False by (simp add: expo_def)
qed

lemma fl_error: "\<bar>fl x - x\<bar> \<le> \<bar>x\<bar> / 2 ^ 53"
proof (cases "x = 0")
  case True
  then show ?thesis by simp
next
  case False
  let ?p = "(2::real) powi (expo x - 52)"
  let ?y = "x / ?p"
  have p: "0 < ?p" by simp
  have "fl x - x = (real_of_int (round_even ?y) - ?y) * ?p"
    using False by (simp add: fl_def algebra_simps)
  then have "\<bar>fl x - x\<bar> = \<bar>real_of_int (round_even ?y) - ?y\<bar> * ?p"
    using p by (simp add: abs_mult)
  also have "\<dots> \<le> 1/2 * ?p"
    using round_even_close [of ?y] p by (intro mult_right_mono) simp_all
  also have "1/2 * ?p = 2 powi expo x / 2 ^ 53"
    by (simp add: power_int_diff)
  also have "\<dots> \<le> \<bar>x\<bar> / 2 ^ 53"
    using expo_lower [OF False] by (simp add: divide_right_mono)
  finally show ?thesis .
qed

lemma fl_upper: "0 \<le> x \<Longrightarrow> fl x \<le> x * (1 + 1 / 2 ^ 53)"
proof -
  assume "0 \<le> x"
  with fl_error [of x] have "\<bar>fl x - x\<bar> \<le> x / 2 ^ 53" by simp
  then have "fl x \<le> x + x / 2 ^ 53" by linarith
  then show ?thesis by (simp add: algebra_simps)
qed

lemma fl_lower: "0 \<le> x \<Longrightarrow> x * (1 - 1 / 2 ^ 53) \<le> fl x"
proof -
  assume "0 \<le> x"
  with fl_error [of x] have "\<bar>fl x - x\<bar> \<le> x / 2 ^ 53" by simp
  then have "x - x / 2 ^ 53 \<le> fl x" by linarith
  then show ?thesis by (simp add: algebra_simps)
qed

lemma fl_two [simp]: "fl 2 = 2"
  by (simp add: fl_def expo_def compute_bitlen round_even_def)

section \<open>The tick conversion\<close>

lemma py_int_clamped: "max 0 (py_int x) = max 0 \<lfloor>x\<rfloor>"
proof (cases "0 \<le> x")
  case True
  then show ?thesis by (simp add: py_int_def)
next
  case False
  then have "\<lceil>x\<rceil> \<le> 0" and "\<lfloor>x\<rfloor> \<le> 0"
    by (simp_all add: ceiling_le_zero floor_le_zero le_less_trans less_imp_le)
  with False show ?thesis by (simp add: py_int_def)
qed

lemma delta_ticks_None [simp]: "delta_ticks None ts = 0"
  by (simp add: delta_ticks_def py_int_def)

lemma delta_ticks_nonneg: "0 \<le> delta_ticks l ts"
  by (simp add: delta_ticks_def)

lemma delta_ticks_Some:
  "delta_ticks (Some prev) cur = max 0 \<lfloor>fl (fl (fl (cur - prev) * 480) * 2)\<rfloor>"
  by (simp add: delta_ticks_def Let_def py_int_clamped TICKS_PER_BEAT_def DEFAULT_TEMPO_def)

text \<open>
  How far the rounded product is from the exact one: each of the three operations changes
  its result by at most the fraction \<open>2^-53\<close>.
\<close>

lemma rounded_product_close:
  assumes "0 \<le> d"
  shows "fl (fl (fl d * 480) * 2) \<le> d * 960 * (1 + 1 / 2 ^ 51)"
    and "d * 960 * (1 - 1 / 2 ^ 51) \<le> fl (fl (fl d * 480) * 2)"
    and "0 \<le> fl (fl (fl d * 480) * 2)"
proof -
  let ?u = "1 / (2::real) ^ 53"
  let ?a = "fl d" and ?b = "fl (fl d * 480)" and ?c = "fl (fl (fl d * 480) * 2)"
  have a0: "0 \<le> ?a" using assms by (rule fl_nonneg)
  then have b0: "0 \<le> ?b" by (intro fl_nonneg) simp
  then show c0: "0 \<le> ?c" by (intro fl_nonneg) simp
  have a: "?a \<le> d * (1 + ?u)" "d * (1 - ?u) \<le> ?a"
    using assms by (rule fl_upper, rule fl_lower)
  have b: "?b \<le> ?a * 480 * (1 + ?u)" "?a * 480 * (1 - ?u) \<le> ?b"
    using a0 by (intro fl_upper, simp, intro fl_lower, simp)
  have c: "?c \<le> ?b * 2 * (1 + ?u)" "?b * 2 * (1 - ?u) \<le> ?c"
    using b0 by (intro fl_upper, simp, intro fl_lower, simp)
  have "?c \<le> ?b * 2 * (1 + ?u)" by (rule c(1))
  also have "\<dots> \<le> (?a * 480 * (1 + ?u)) * 2 * (1 + ?u)"
    using b(1) by (intro mult_right_mono) simp_all
  also have "\<dots> \<le> (d * (1 + ?u) * 480 * (1 + ?u)) * 2 * (1 + ?u)"
    using a(1) by (intro mult_right_mono) simp_all
  also have "\<dots> = d * 960 * ((1 + ?u) * (1 + ?u) * (1 + ?u))"
    by (simp add: algebra_simps)
  also have "\<dots> \<le> d * 960 * (1 + 1 / 2 ^ 51)"
    using assms by (intro mult_left_mono) simp_all
  finally show "?c \<le> d * 960 * (1 + 1 / 2 ^ 51)" .
  have "d * 960 * (1 - 1 / 2 ^ 51) \<le> d * 960 * ((1 - ?u) * (1 - ?u) * (1 - ?u))"
    using assms by (intro mult_left_mono) simp_all
  also have "\<dots> = (d * (1 - ?u) * 480 * (1 - ?u)) * 2 * (1 - ?u)"
    by (simp add: algebra_simps)
  also have "\<dots> \<le> (?a * 480 * (1 - ?u)) * 2 * (1 - ?u)"
    using a(2) by (intro mult_right_mono) simp_all
  also have "\<dots> \<le> ?b * 2 * (1 - ?u)"
    using b(2) by (intro mult_right_mono) simp_all
  also have "\<dots> \<le> ?c" by (rule c(2))
  finally show "d * 960 * (1 - 1 / 2 ^ 51) \<le> ?c" .
qed

lemma delta_ticks_close:
  assumes "prev \<le> cur"
  shows "real_of_int (delta_ticks (Some prev) cur) \<le> (cur - prev) * 960 * (1 + 1 / 2 ^ 51)"
    and "(cur - prev) * 960 * (1 - 1 / 2 ^ 51) - 1 < real_of_int (delta_ticks (Some prev) cur)"
proof -
  let ?c = "fl (fl (fl (cur - prev) * 480) * 2)"
  from assms have d: "0 \<le> cur - prev" by simp
  note p = rounded_product_close [OF d]
  from p(3) have "0 \<le> \<lfloor>?c\<rfloor>" by simp
  then have eq: "delta_ticks (Some prev) cur = \<lfloor>?c\<rfloor>"
    by (simp add: delta_ticks_Some)
  have "real_of_int \<lfloor>?c\<rfloor> \<le> ?c" by simp
  with p(1) show "real_of_int (delta_ticks (Some prev) cur) \<le> (cur - prev) * 960 * (1 + 1 / 2 ^ 51)"
    unfolding eq by linarith
  have "?c - 1 < real_of_int \<lfloor>?c\<rfloor>" by linarith
  with p(2) show "(cur - prev) * 960 * (1 - 1 / 2 ^ 51) - 1 < real_of_int (delta_ticks (Some prev) cur)"
    unfolding eq by linarith
qed

text \<open>
  C2 (amended). The tick conversion is a function of the previous and the current
  timestamp only. With no previous timestamp it is 0. Otherwise, for timestamps less than
  \<open>2^1000\<close> seconds apart, it is the floor, and at least 0, of the product
  \<open>(cur - prev) * ticks_per_beat * (1000000 / tempo)\<close> as the float operations compute it,
  each of them rounding its result to a double. A current timestamp that is not after
  the previous one gives 0. For a current timestamp after the previous one, the result is
  at most the exact product enlarged by the fraction \<open>2^-51\<close>, and more than the exact
  product reduced by that fraction, less one. It is what \<open>write_message\<close> stores as the
  time of the message it appends.
\<close>

theorem delta_ticks_rounded:
  assumes "\<bar>cur - prev\<bar> < 2 ^ 1000"
  shows "delta_ticks None cur = 0 \<and>
   delta_ticks (Some prev) cur =
     max 0 \<lfloor>fl (fl (fl (cur - prev) * real_of_int TICKS_PER_BEAT) *
                  fl (1000000 / real_of_int DEFAULT_TEMPO))\<rfloor> \<and>
   (cur \<le> prev \<longrightarrow> delta_ticks (Some prev) cur = 0) \<and>
   (prev \<le> cur \<longrightarrow>
      real_of_int (delta_ticks (Some prev) cur)
        \<le> (cur - prev) * real_of_int TICKS_PER_BEAT * (1000000 / real_of_int DEFAULT_TEMPO)
            * (1 + 1 / 2 ^ 51) \<and>
      (cur - prev) * real_of_int TICKS_PER_BEAT * (1000000 / real_of_int DEFAULT_TEMPO)
            * (1 - 1 / 2 ^ 51) - 1
        < real_of_int (delta_ticks (Some prev) cur)) \<and>
   (current_track r = Some tr \<longrightarrow>
      current_track (write_message msg cur r) =
        Some (tr @ [Message (msg\<lparr>msg_time := delta_ticks (last_message_time r) cur\<rparr>)]))"
proof -
  have b: "delta_ticks (Some prev) cur =
     max 0 \<lfloor>fl (fl (fl (cur - prev) * real_of_int TICKS_PER_BEAT) *
                  fl (1000000 / real_of_int DEFAULT_TEMPO))\<rfloor>"
    by (simp add: delta_ticks_def Let_def py_int_clamped)
  have c: "delta_ticks (Some prev) cur = 0" if "cur \<le> prev"
  proof -
    from that have "fl (cur - prev) \<le> 0" by (intro fl_nonpos) simp
    then have "fl (cur - prev) * 480 \<le> 0" by simp
    then have "fl (fl (cur - prev) * 480) \<le> 0" by (rule fl_nonpos)
    then have "fl (fl (cur - prev) * 480) * 2 \<le> 0" by simp
    then have "fl (fl (fl (cur - prev) * 480) * 2) \<le> 0" by (rule fl_nonpos)
    then have "\<lfloor>fl (fl (fl (cur - prev) * 480) * 2)\<rfloor> \<le> 0"
      by (simp add: floor_le_zero le_less_trans)
    then show ?thesis by (simp add: delta_ticks_Some)
  qed
  have d: "current_track (write_message msg cur r) =
        Some (tr @ [Message (msg\<lparr>msg_time := delta_ticks (last_message_time r) cur\<rparr>)])"
    if "current_track r = Some tr"
    using that by (simp add: write_message_def)
  have e: "(cur - prev) * real_of_int TICKS_PER_BEAT * (1000000 / real_of_int DEFAULT_TEMPO)
      = (cur - prev) * 960"
    by (simp add: TICKS_PER_BEAT_def DEFAULT_TEMPO_def)
  from b c d delta_ticks_close [of prev cur] show ?thesis
    unfolding e by simp
qed

theorem delta_ticks_rounded_witness:
  "delta_ticks (Some 2) 1 = 0 \<and> delta_ticks (Some 1) 2 = 960 \<and>
   real_of_int (delta_ticks (Some 0) d07) \<le> d07 * 960 * (1 + 1 / 2 ^ 51) \<and>
   current_track (write_message (Msg note_on 60 64) 2
                    (init\<lparr>current_track := Some [tempo_msg], last_message_time := Some 1\<rparr>)) =
     Some [tempo_msg, Message ((Msg note_on 60 64)\<lparr>msg_time := 960\<rparr>)]"
proof -
  have f: "fl 1 = 1" "fl 480 = 480" "fl 960 = 960"
    by (simp_all add: fl_def expo_def compute_bitlen round_even_def)
  show ?thesis
    using delta_ticks_rounded [of 2 1 "init\<lparr>current_track := Some [tempo_msg], last_message_time := Some 1\<rparr>"
          "[tempo_msg]" "Msg note_on 60 64"]
        delta_ticks_rounded [of 1 2 init "[]" "Msg note_on 60 64"]
        delta_ticks_rounded [of d07 0 init "[]" "Msg note_on 60 64"]
    by (simp add: f TICKS_PER_BEAT_def DEFAULT_TEMPO_def init_def d07_def)
qed

text \<open>
  The floor of the exact product is not what the code returns: from the timestamp 0.0 to
  the double \<open>d07\<close> (what Python reads \<open>0.7\<close> as) the exact product is a little less than
  672 and its floor is 671, but the float product of \<open>d07\<close> and 480 rounds to 336, and the
  code returns 672.
\<close>

theorem tick_floor_not_exact_counterexample:
  "fl d07 = d07 \<and> delta_ticks (Some 0) d07 = 672 \<and>
   max 0 \<lfloor>(d07 - 0) * real_of_int TICKS_PER_BEAT * (1000000 / real_of_int DEFAULT_TEMPO)\<rfloor> = 671"
proof -
  have a: "fl d07 = d07"
    by (simp add: d07_def fl_def expo_def compute_bitlen round_even_def)
  have b: "fl (d07 * 480) = 336"
    by (simp add: d07_def fl_def expo_def compute_bitlen round_even_def)
  have c: "fl 672 = 672"
    by (simp add: fl_def expo_def compute_bitlen round_even_def)
  have "delta_ticks (Some 0) d07 = 672"
    by (simp add: delta_ticks_Some a b c)
  moreover have "max 0 \<lfloor>(d07 - 0) * real_of_int TICKS_PER_BEAT * (1000000 / real_of_int DEFAULT_TEMPO)\<rfloor> = 671"
    by (simp add: d07_def TICKS_PER_BEAT_def DEFAULT_TEMPO_def)
  ultimately show ?thesis using a by simp
qed

section \<open>Draining the queue\<close>

lemma process_message_queue_Nil:
  "message_queue r = [] \<Longrightarrow> process_message_queue e r = Inr r"
  by (simp add: process_message_queue.simps)

lemma process_message_queue_Cons:
  "message_queue r = (m, ts) # q \<Longrightarrow>
   process_message_queue e r =
     (case process_midi_message e m ts (r\<lparr>message_queue := q\<rparr>) of
        Inl x \<Rightarrow> Inl x
      | Inr r' \<Rightarrow> process_message_queue e r')"
  by (simp add: process_message_queue.simps)

section \<open>Clock and active-sensing messages\<close>

lemma process_midi_message_ignored:
  "ignored m \<Longrightarrow> process_midi_message e m ts r = Inr r"
  by (auto simp: process_midi_message_def ignored_def)

lemma process_message_queue_ignored:
  "list_all (\<lambda>(m, ts). ignored m) (message_queue r) \<Longrightarrow>
   process_message_queue e r = Inr (r\<lparr>message_queue := []\<rparr>)"
proof (induction "message_queue r" arbitrary: r)
  case Nil
  then show ?case by (simp add: process_message_queue_Nil)
next
  case (Cons a q)
  obtain m ts where a: "a = (m, ts)" by (cases a)
  from Cons.hyps(2) a have q: "message_queue r = (m, ts) # q" by simp
  with Cons.prems have ign: "ignored m" and rest: "list_all (\<lambda>(m, ts). ignored m) q"
    by simp_all
  have "process_message_queue e (r\<lparr>message_queue := q\<rparr>) = Inr (r\<lparr>message_queue := q\<rparr>\<lparr>message_queue := []\<rparr>)"
    by (rule Cons.hyps(1)) (simp_all add: rest)
  with q ign show ?case
    by (simp add: process_message_queue_Cons process_midi_message_ignored)
qed

lemma untouched_fields:
  "untouched r \<Longrightarrow> \<not> recording r \<and> last_activity r = None \<and> current_track r = None \<and> 
     current_file r = None \<and> saved_files r = [] \<and> \<not> in_low_power r \<and> governor_log r = []"
proof -
  assume "untouched r"
  then have eq: "r\<lparr>message_queue := [], running := True\<rparr> = init"
    by (simp add: untouched_def)
  have "recording r = recording (r\<lparr>message_queue := [], running := True\<rparr>)" by simp
  moreover have "last_activity r = last_activity (r\<lparr>message_queue := [], running := True\<rparr>)" by simp
  moreover have "current_track r = current_track (r\<lparr>message_queue := [], running := True\<rparr>)" by simp
  moreover have "current_file r = current_file (r\<lparr>message_queue := [], running := True\<rparr>)" by simp
  moreover have "saved_files r = saved_files (r\<lparr>message_queue := [], running := True\<rparr>)" by simp
  moreover have "in_low_power r = in_low_power (r\<lparr>message_queue := [], running := True\<rparr>)" by simp
  moreover have "governor_log r = governor_log (r\<lparr>message_queue := [], running := True\<rparr>)" by simp
  ultimately show ?thesis
    unfolding eq by (simp add: init_def)
qed

lemma untouched_step:
  assumes "untouched r" and "case c of Midi_callback m \<Rightarrow> ignored m | _ \<Rightarrow> True"
  shows "untouched (step r (e, c))"
proof (cases "running r")
  case False
  with assms show ?thesis by simp
next
  case True
  from assms(1) have nr: "\<not> recording r" by (simp add: untouched_fields)
  show ?thesis
  proof (cases c)
    case (Midi_callback m)
    with assms True show ?thesis
      by (simp add: untouched_def midi_callback_def)
  next
    case Process_message_queue
    with assms True show ?thesis
      by (simp add: untouched_def process_message_queue_ignored caught_def)
  next
    case Check_session_timeout
    with assms True nr show ?thesis
      by (simp add: check_session_timeout_def caught_def)
  next
    case Signal_handler
    with assms True nr show ?thesis
      by (simp add: signal_handler_def stop_recording_def caught_def untouched_def)
  qed
qed

lemma untouched_foldl:
  "untouched r \<Longrightarrow> only_ignored cs \<Longrightarrow> untouched (foldl step r cs)"
proof (induction cs arbitrary: r)
  case Nil
  then show ?case by simp
next
  case (Cons a cs)
  obtain e c where a: "a = (e, c)" by (cases a)
  from Cons.prems(2) a have c: "case c of Midi_callback m \<Rightarrow> ignored m | _ \<Rightarrow> True"
    and cs: "only_ignored cs"
    by (simp_all add: only_ignored_def)
  from Cons.prems(1) c have "untouched (step r (e, c))" by (rule untouched_step)
  then have "untouched (foldl step (step r (e, c)) cs)" using cs by (rule Cons.IH)
  with a show ?case by simp
qed

text \<open>
  C7. A message of type \<open>clock\<close> or \<open>active_sensing\<close> leaves the recorder exactly as it
  was: no session starts, the activity time is not updated, nothing is written to a track.
  So when every message the port delivers is of these two types, whatever the main loop
  does and however often, the recorder is never recording, has no track and no activity
  time, and no file has been saved.
\<close>

theorem clock_and_active_sensing_ignored:
  "(msg_type m \<in> {clock, active_sensing} \<longrightarrow> process_midi_message e m ts r = Inr r) \<and>
   (only_ignored cs \<longrightarrow>
      \<not> recording (run_calls cs) \<and> last_activity (run_calls cs) = None \<and>
      current_track (run_calls cs) = None \<and> saved_files (run_calls cs) = [])"
proof -
  have "untouched init" by (simp add: untouched_def init_def)
  then have "only_ignored cs \<Longrightarrow> untouched (run_calls cs)"
    unfolding run_calls_def by (rule untouched_foldl)
  then show ?thesis
    by (auto simp: process_midi_message_def dest: untouched_fields)
qed

theorem clock_and_active_sensing_ignored_witness:
  "only_ignored [(e0, Midi_callback (Msg clock 0 0)), (e0, Process_message_queue), (e0\<lparr>time_time := 2000\<rparr>, Check_session_timeout)] \<and>
   process_midi_message e0 (Msg clock 0 0) 0 init = Inr init \<and>
   saved_files (run_calls [(e0, Midi_callback (Msg clock 0 0)), (e0, Process_message_queue), (e0\<lparr>time_time := 2000\<rparr>, Check_session_timeout)]) = [] \<and>
   \<not> recording (run_calls [(e0, Midi_callback (Msg clock 0 0)), (e0, Process_message_queue), (e0\<lparr>time_time := 2000\<rparr>, Check_session_timeout)])"
  using clock_and_active_sensing_ignored [of "Msg clock 0 0" e0 0 init
     "[(e0, Midi_callback (Msg clock 0 0)), (e0, Process_message_queue), (e0\<lparr>time_time := 2000\<rparr>, Check_session_timeout)]"]
  by (simp add: only_ignored_def ignored_def Msg_def)

section \<open>The three-tap gesture\<close>

lemma handle_shortcuts_reserved:
  "msg_type m = note_on \<or> msg_type m = note_off \<Longrightarrow> msg_note m = reserved_note w \<Longrightarrow>
   handle_shortcuts e m ts r = shortcut_body e w (reserved_suffix w) m ts r"
  by (cases w) (auto simp: handle_shortcuts_def LOW_BLACK_NOTE_def HIGH_BLACK_NOTE_def)

lemma get_set_state [simp]: "get_state w (set_state w s r) = s"
  by (cases w) auto


lemma shortcut_body_tap:
  "msg_type m = note_on \<Longrightarrow> count (get_state w r) < 2 \<Longrightarrow>
   \<not> (0 < count (get_state w r) \<and> SHORTCUT_TIMEOUT < ts - last_time (get_state w r)) \<Longrightarrow>
   shortcut_body e w suffix m ts r =
     Inr (True, set_state w ((get_state w r)\<lparr>buffer := buffer (get_state w r) @ [(m, ts)],
                                              count := count (get_state w r) + 1,
                                              last_time := ts\<rparr>) r)"
  by (cases w) (auto simp add: shortcut_body_def Let_def)

lemma shortcut_body_trigger:
  assumes "msg_type m = note_on" and "2 \<le> count (get_state w r)"
    and "\<not> SHORTCUT_TIMEOUT < ts - last_time (get_state w r)"
    and "recording r" and "well_formed r"
  shows "shortcut_body e w suffix m ts r = Inr (True, stopped e suffix r)"
  using assms
  by (cases w)
     (auto simp add: shortcut_body_def Let_def stop_recording_skip_queue_def
        stop_recording_finish_def well_formed_def stopped_def truthy_def
        split: option.splits)

lemma touch_fields [simp]:
  "recording (touch e r) = recording r"
  "current_file (touch e r) = current_file r"
  "current_track (touch e r) = current_track r"
  "first_message_time (touch e r) = first_message_time r"
  "last_message_time (touch e r) = last_message_time r"
  "saved_files (touch e r) = saved_files r"
  "message_queue (touch e r) = message_queue r"
  "low_note_state (touch e r) = low_note_state r"
  "high_note_state (touch e r) = high_note_state r"
  "running (touch e r) = running r"
  by (simp_all add: touch_def exit_low_power_mode_def)

lemma get_state_touch [simp]: "get_state w (touch e r) = get_state w r"
  by (cases w) simp_all

lemma well_formed_touch [simp]: "well_formed (touch e r) = well_formed r"
  by (simp add: well_formed_def split: option.splits)

lemma well_formed_queue [simp]: "well_formed (r\<lparr>message_queue := q\<rparr>) = well_formed r"
  by (simp add: well_formed_def split: option.splits)

lemma process_midi_message_recording:
  "recording r \<Longrightarrow> msg_type m \<noteq> clock \<Longrightarrow> msg_type m \<noteq> active_sensing \<Longrightarrow>
   process_midi_message e m ts r =
     (case handle_shortcuts e m ts (touch e r) of
        Inl x \<Rightarrow> Inl x
      | Inr (handled, r4) \<Rightarrow> Inr (if \<not> handled then write_message m ts r4 else r4))"
  by (simp add: process_midi_message_def touch_def Let_def)

lemma process_midi_message_idle:
  "\<not> recording r \<Longrightarrow> msg_type m \<noteq> clock \<Longrightarrow> msg_type m \<noteq> active_sensing \<Longrightarrow>
   process_midi_message e m ts r =
     process_midi_message e m ts ((start_recording e r)\<lparr>first_message_time := Some ts\<rparr>)"
proof -
  assume a: "\<not> recording r" "msg_type m \<noteq> clock" "msg_type m \<noteq> active_sensing"
  define r2 where "r2 = (start_recording e r)\<lparr>first_message_time := Some ts\<rparr>"
  have rec: "recording r2"
    using a(1) by (simp add: r2_def start_recording_def)
  have la: "r2\<lparr>last_activity := Some (time_time e)\<rparr> = r2"
    using a(1) by (intro recorder.equality) (simp_all add: r2_def start_recording_def)
  have lhs: "(start_recording e (r\<lparr>last_activity := Some (time_time e)\<rparr>))\<lparr>first_message_time := Some ts\<rparr> = r2"
    using a(1) by (intro recorder.equality) (simp_all add: r2_def start_recording_def)
  from a rec show ?thesis
    unfolding r2_def [symmetric]
    by (simp add: process_midi_message_def Let_def la lhs)
qed

lemma set_state_fields [simp]:
  "recording (set_state w s r) = recording r"
  "current_file (set_state w s r) = current_file r"
  "current_track (set_state w s r) = current_track r"
  "first_message_time (set_state w s r) = first_message_time r"
  "last_message_time (set_state w s r) = last_message_time r"
  "saved_files (set_state w s r) = saved_files r"
  "running (set_state w s r) = running r"
  by (cases w; simp)+










section \<open>What the trigger discards\<close>

text \<open>
  C10. When the third tap on one reserved note triggers the stop, both shortcut states
  are reset to empty, the one of the other reserved note too: whatever was pending in
  either buffer is dropped, and the track of the saved file is the track as it was before
  the tap, with nothing from either buffer in it.
\<close>

theorem trigger_discards_both_buffers:
  assumes "is_tap w m" and "2 \<le> count (get_state w r)"
    and "ts - last_time (get_state w r) \<le> SHORTCUT_TIMEOUT"
    and "recording r" and "current_file r = Some tpb" and "current_track r = Some tr"
    and "1 < length tr \<longrightarrow> last_message_time r \<noteq> None"
  shows "\<exists>r'. handle_shortcuts e m ts r = Inr (True, r') \<and>
              low_note_state r' = empty_state \<and> high_note_state r' = empty_state \<and>
              \<not> recording r' \<and> current_track r' = None \<and>
              saved_files r' = saved_files r @
                (if 1 < length tr
                 then [\<lparr>file_path = session_stem e @ reserved_suffix w @ ''.mid'',
                        ticks_per_beat = tpb, tracks = [tr]\<rparr>]
                 else [])"
proof -
  from assms(5-7) have wf: "well_formed r"
    by (simp add: well_formed_def)
  from assms(3) have "\<not> SHORTCUT_TIMEOUT < ts - last_time (get_state w r)"
    by simp
  with assms(1,2,4) wf
  have "shortcut_body e w (reserved_suffix w) m ts r = Inr (True, stopped e (reserved_suffix w) r)"
    by (intro shortcut_body_trigger) (simp_all add: is_tap_def)
  with assms(1) have "handle_shortcuts e m ts r = Inr (True, stopped e (reserved_suffix w) r)"
    by (simp add: handle_shortcuts_reserved is_tap_def)
  with assms(5,6) show ?thesis
    by (simp add: stopped_def empty_state_def)
qed

theorem trigger_discards_both_buffers_witness:
  "\<exists>r'. handle_shortcuts e0 (Msg note_on 22 64) 13 both_pending = Inr (True, r') \<and>
        low_note_state r' = empty_state \<and> high_note_state r' = empty_state \<and>
        saved_files r' = [\<lparr>file_path = ''session_120000.mid'', ticks_per_beat = 480,
                           tracks = [[tempo_msg, Message (Msg note_on 60 64)]]\<rparr>]"
  using trigger_discards_both_buffers [of Low "Msg note_on 22 64" both_pending 13 480
          "[tempo_msg, Message (Msg note_on 60 64)]" e0]
  by (auto simp add: is_tap_def Msg_def both_pending_def playing_def init_def e0_def
        LOW_BLACK_NOTE_def SHORTCUT_TIMEOUT_def TICKS_PER_BEAT_def)

section \<open>Velocity\<close>

lemma shortcut_body_velocity:
  "map_sum (map_prod id forget_velocity) (map_prod id forget_velocity)
     (shortcut_body e w suffix (m\<lparr>msg_velocity := v\<rparr>) ts r) =
   map_sum (map_prod id forget_velocity) (map_prod id forget_velocity)
     (shortcut_body e w suffix m ts r)"
  by (cases w)
     (auto simp add: shortcut_body_def Let_def forget_velocity_def flush_buffer_def
        stop_recording_skip_queue_def stop_recording_finish_def
        split: sum.splits option.splits)

text \<open>
  C9. The shortcut detector does not read the velocity. Whatever the message, setting
  its velocity to 0 changes nothing in what \<open>handle_shortcuts\<close> reports and does, apart
  from the velocity kept in the buffered copy. A \<open>note_on\<close> with velocity 0 on a reserved
  note is buffered, raises the tap count by one and sets the time of the last tap; as
  the third tap within the timeout it triggers the stop.
\<close>

theorem velocity_not_consulted:
  "map_sum (map_prod id forget_velocity) (map_prod id forget_velocity)
     (handle_shortcuts e (m\<lparr>msg_velocity := 0\<rparr>) ts r) =
   map_sum (map_prod id forget_velocity) (map_prod id forget_velocity)
     (handle_shortcuts e m ts r) \<and>
   (is_tap w m \<longrightarrow> count (get_state w r) < 2 \<longrightarrow>
    \<not> (0 < count (get_state w r) \<and> SHORTCUT_TIMEOUT < ts - last_time (get_state w r)) \<longrightarrow>
      (\<exists>r'. handle_shortcuts e (m\<lparr>msg_velocity := 0\<rparr>) ts r = Inr (True, r') \<and>
            count (get_state w r') = count (get_state w r) + 1 \<and>
            last_time (get_state w r') = ts \<and>
            buffer (get_state w r') = buffer (get_state w r) @ [(m\<lparr>msg_velocity := 0\<rparr>, ts)])) \<and>
   (is_tap w m \<longrightarrow> 2 \<le> count (get_state w r) \<longrightarrow>
    ts - last_time (get_state w r) \<le> SHORTCUT_TIMEOUT \<longrightarrow> recording r \<longrightarrow> well_formed r \<longrightarrow>
      handle_shortcuts e (m\<lparr>msg_velocity := 0\<rparr>) ts r =
        Inr (True, stopped e (reserved_suffix w) r))"
proof -
  let ?m0 = "m\<lparr>msg_velocity := 0\<rparr>"
  have a: "map_sum (map_prod id forget_velocity) (map_prod id forget_velocity)
     (handle_shortcuts e ?m0 ts r) =
   map_sum (map_prod id forget_velocity) (map_prod id forget_velocity)
     (handle_shortcuts e m ts r)"
    by (simp add: handle_shortcuts_def shortcut_body_velocity)
  have tap0: "is_tap w ?m0" if "is_tap w m"
    using that by (simp add: is_tap_def)
  have b: "\<exists>r'. handle_shortcuts e ?m0 ts r = Inr (True, r') \<and>
            count (get_state w r') = count (get_state w r) + 1 \<and>
            last_time (get_state w r') = ts \<and>
            buffer (get_state w r') = buffer (get_state w r) @ [(?m0, ts)]"
    if "is_tap w m" "count (get_state w r) < 2"
      "\<not> (0 < count (get_state w r) \<and> SHORTCUT_TIMEOUT < ts - last_time (get_state w r))"
  proof -
    have "shortcut_body e w (reserved_suffix w) ?m0 ts r =
       Inr (True, set_state w ((get_state w r)\<lparr>buffer := buffer (get_state w r) @ [(?m0, ts)],
                                              count := count (get_state w r) + 1,
                                              last_time := ts\<rparr>) r)"
      using tap0 [OF that(1)] that(2,3)
      by (intro shortcut_body_tap) (simp_all add: is_tap_def)
    with tap0 [OF that(1)] show ?thesis
      by (simp add: handle_shortcuts_reserved is_tap_def)
  qed
  have c: "handle_shortcuts e ?m0 ts r = Inr (True, stopped e (reserved_suffix w) r)"
    if "is_tap w m" "2 \<le> count (get_state w r)"
      "ts - last_time (get_state w r) \<le> SHORTCUT_TIMEOUT" "recording r" "well_formed r"
  proof -
    from that(3) have "\<not> SHORTCUT_TIMEOUT < ts - last_time (get_state w r)" by simp
    with tap0 [OF that(1)] that(2,4,5)
    have "shortcut_body e w (reserved_suffix w) ?m0 ts r =
        Inr (True, stopped e (reserved_suffix w) r)"
      by (intro shortcut_body_trigger) (simp_all add: is_tap_def)
    with tap0 [OF that(1)] show ?thesis
      by (simp add: handle_shortcuts_reserved is_tap_def)
  qed
  from a b c show ?thesis by blast
qed

theorem velocity_not_consulted_witness:
  "is_tap Low (Msg note_on 22 64) \<and>
   handle_shortcuts e0 (Msg note_on 22 0) 13 both_pending = Inr (True, stopped e0 [] both_pending) \<and>
   \<not> recording (stopped e0 [] both_pending) \<and>
   (\<exists>r'. handle_shortcuts e0 (Msg note_on 22 0) 11 playing = Inr (True, r') \<and>
         count (low_note_state r') = 1 \<and> last_time (low_note_state r') = 11)"
  using velocity_not_consulted [of e0 "Msg note_on 22 64" 13 both_pending Low]
    velocity_not_consulted [of e0 "Msg note_on 22 64" 11 playing Low]
  by (auto simp add: is_tap_def Msg_def both_pending_def playing_def init_def
        LOW_BLACK_NOTE_def SHORTCUT_TIMEOUT_def well_formed_def stopped_def empty_state_def)

section \<open>A release left in the buffer\<close>

text \<open>
  C3 fails on the code. The low note is pressed, then note 60 is pressed (which flushes
  the tap), then the low note is released, then note 60 is released, and the queue is
  drained. The release of the low note is buffered with a tap count of 0. The release of
  note 60 matches neither reserved note, but \<open>handle_shortcuts\<close> flushes a buffer only when
  its tap count is positive: the buffered release is not written to the track before the
  release of note 60, it stays in the buffer.
\<close>

theorem release_left_in_buffer:
  "current_track (run_calls stranded_release) =
     Some [tempo_msg, Message (Msg note_on 22 64), Message ((Msg note_on 60 64)\<lparr>msg_time := 120\<rparr>),
           Message ((Msg note_off 60 0)\<lparr>msg_time := 240\<rparr>)] \<and>
   low_note_state (run_calls stranded_release) =
     \<lparr>count = 0, buffer = [(Msg note_off 22 0, 1/4)], last_time = 0\<rparr> \<and>
   handle_shortcuts e0 (Msg note_off 60 0) (3/8)
       (playing\<lparr>low_note_state := \<lparr>count = 0, buffer = [(Msg note_off 22 0, 1/4)], last_time = 0\<rparr>\<rparr>) =
     Inr (False, playing\<lparr>low_note_state := \<lparr>count = 0, buffer = [(Msg note_off 22 0, 1/4)], last_time = 0\<rparr>\<rparr>)"
proof -
  have d: "delta_ticks (Some 0) (1/8) = 120" "delta_ticks (Some (1/8)) (3/8) = 240"
    by (simp_all add: delta_ticks_Some fl_def expo_def compute_bitlen round_even_def)
  have "run_calls stranded_release =
     init\<lparr>recording := True, last_activity := Some 1000, current_file := Some 480,
          current_track := Some [tempo_msg, Message (Msg note_on 22 64),
             Message ((Msg note_on 60 64)\<lparr>msg_time := 120\<rparr>),
             Message ((Msg note_off 60 0)\<lparr>msg_time := 240\<rparr>)],
          session_start_time := Some (3/8), first_message_time := Some 0,
          last_message_time := Some (3/8),
          low_note_state := \<lparr>count = 0, buffer = [(Msg note_off 22 0, 1/4)], last_time = 0\<rparr>\<rparr>"
    by (simp add: stranded_release_def run_calls_def midi_callback_def caught_def e0_def
        Msg_def init_def process_message_queue.simps process_midi_message_def
        start_recording_def handle_shortcuts_def shortcut_body_def flush_counted_def
        flush_buffer_def write_message_def d Let_def
        LOW_BLACK_NOTE_def HIGH_BLACK_NOTE_def SHORTCUT_TIMEOUT_def empty_state_def
        TICKS_PER_BEAT_def)
  moreover have "handle_shortcuts e0 (Msg note_off 60 0) (3/8)
       (playing\<lparr>low_note_state := \<lparr>count = 0, buffer = [(Msg note_off 22 0, 1/4)], last_time = 0\<rparr>\<rparr>) =
     Inr (False, playing\<lparr>low_note_state := \<lparr>count = 0, buffer = [(Msg note_off 22 0, 1/4)], last_time = 0\<rparr>\<rparr>)"
    by (simp add: handle_shortcuts_def flush_counted_def Msg_def playing_def init_def
        LOW_BLACK_NOTE_def HIGH_BLACK_NOTE_def empty_state_def)
  ultimately show ?thesis by simp
qed

section \<open>Writing and flushing\<close>

lemma write_all_track:
  "current_track r = Some tr \<Longrightarrow>
   write_all evs r =
     r\<lparr>current_track := Some (tr @ written (last_message_time r) evs),
       last_message_time := last_written (last_message_time r) evs\<rparr>"
proof (induction evs arbitrary: r tr)
  case Nil
  then show ?case by simp
next
  case (Cons x evs)
  obtain m ts where x: "x = (m, ts)" by (cases x)
  let ?r = "write_message m ts r"
  have t: "current_track ?r = Some (tr @ [Message (m\<lparr>msg_time := delta_ticks (last_message_time r) ts\<rparr>)])"
    and l: "last_message_time ?r = Some ts"
    using Cons.prems by (simp_all add: write_message_def)
  from Cons.IH [OF t] l x Cons.prems show ?case
    by (simp add: write_message_def)
qed

lemma write_all_no_track:
  "current_track r = None \<Longrightarrow> write_all evs r = r"
  by (induction evs arbitrary: r) (auto simp: write_message_def)

lemma write_message_fields [simp]:
  "recording (write_message m ts r) = recording r"
  "current_file (write_message m ts r) = current_file r"
  "first_message_time (write_message m ts r) = first_message_time r"
  "saved_files (write_message m ts r) = saved_files r"
  "low_note_state (write_message m ts r) = low_note_state r"
  "high_note_state (write_message m ts r) = high_note_state r"
  "running (write_message m ts r) = running r"
  "in_low_power (write_message m ts r) = in_low_power r"
  "last_activity (write_message m ts r) = last_activity r"
  "governor_log (write_message m ts r) = governor_log r"
  by (simp_all add: write_message_def split: option.splits)

lemma write_message_frame:
  "write_message m ts r =
     r\<lparr>current_track := current_track (write_message m ts r),
       last_message_time := last_message_time (write_message m ts r)\<rparr>"
  by (simp add: write_message_def split: option.splits)

lemma write_all_frame:
  "write_all evs r =
     r\<lparr>current_track := current_track (write_all evs r),
       last_message_time := last_message_time (write_all evs r)\<rparr>"
proof (induction evs arbitrary: r)
  case Nil
  then show ?case by simp
next
  case (Cons x evs)
  obtain m ts where x: "x = (m, ts)" by (cases x)
  have "write_all evs (write_message m ts r) =
     (write_message m ts r)\<lparr>current_track := current_track (write_all evs (write_message m ts r)),
       last_message_time := last_message_time (write_all evs (write_message m ts r))\<rparr>"
    by (rule Cons.IH)
  also have "\<dots> = r\<lparr>current_track := current_track (write_all evs (write_message m ts r)),
       last_message_time := last_message_time (write_all evs (write_message m ts r))\<rparr>"
    by (subst write_message_frame) simp
  finally show ?case using x by simp
qed

lemma write_all_fields [simp]:
  "recording (write_all evs r) = recording r"
  "current_file (write_all evs r) = current_file r"
  "first_message_time (write_all evs r) = first_message_time r"
  "saved_files (write_all evs r) = saved_files r"
  "low_note_state (write_all evs r) = low_note_state r"
  "high_note_state (write_all evs r) = high_note_state r"
  "running (write_all evs r) = running r"
  "in_low_power (write_all evs r) = in_low_power r"
  "last_activity (write_all evs r) = last_activity r"
  "governor_log (write_all evs r) = governor_log r"
  "session_start_time (write_all evs r) = session_start_time r"
  by (subst write_all_frame, simp)+

lemma get_state_write_all [simp]: "get_state w (write_all evs r) = get_state w r"
  by (cases w) simp_all

lemma get_set_other [simp]: "get_state (other w) (set_state w s r) = get_state (other w) r"
  by (cases w) auto

lemma shortcut_body_late_tap:
  assumes "msg_type m = note_on" and "0 < count (get_state w r)"
    and "SHORTCUT_TIMEOUT < ts - last_time (get_state w r)"
  shows "shortcut_body e w suffix m ts r =
     Inr (True, set_state w \<lparr>count = 1, buffer = [(m, ts)], last_time = ts\<rparr>
                  (write_all (buffer (get_state w r)) r))"
  using assms
  by (cases w) (auto simp add: shortcut_body_def Let_def flush_buffer_def)

lemma flush_counted_one:
  "0 < count (get_state w r) \<Longrightarrow> count (get_state (other w) r) = 0 \<Longrightarrow>
   flush_counted r = flush_buffer w r"
  by (cases w) (auto simp add: flush_counted_def flush_buffer_def Let_def)

lemma handle_shortcuts_unrelated:
  "msg_type m = note_on \<or> msg_type m = note_off \<Longrightarrow>
   msg_note m \<noteq> LOW_BLACK_NOTE \<Longrightarrow> msg_note m \<noteq> HIGH_BLACK_NOTE \<Longrightarrow>
   handle_shortcuts e m ts r = Inr (False, flush_counted r)"
  by (auto simp add: handle_shortcuts_def)

lemma handle_shortcuts_not_a_note:
  "msg_type m \<noteq> note_on \<Longrightarrow> msg_type m \<noteq> note_off \<Longrightarrow>
   handle_shortcuts e m ts r = Inr (False, flush_counted r)"
  by (auto simp add: handle_shortcuts_def)

lemma written_append: "written l (a @ b) = written l a @ written (last_written l a) b"
  by (induction l a rule: written.induct) auto

lemma last_written_append: "last_written l (a @ b) = last_written (last_written l a) b"
  by (induction l a rule: last_written.induct) auto

lemma last_written_Some: "evs \<noteq> [] \<Longrightarrow> last_written l evs \<noteq> None"
proof (induction l evs rule: last_written.induct)
  case (1 l)
  then show ?case by simp
next
  case (2 l m ts rest)
  then show ?case by (cases rest) auto
qed

lemma flush_shortcut_buffers_track:
  assumes "current_track r = Some tr"
  shows "flush_shortcut_buffers r =
     r\<lparr>current_track := Some (tr @ written (last_message_time r)
                                   (buffer (low_note_state r) @ buffer (high_note_state r))),
       last_message_time := last_written (last_message_time r)
                                   (buffer (low_note_state r) @ buffer (high_note_state r)),
       low_note_state := \<lparr>count = 0, buffer = [], last_time = 0\<rparr>,
       high_note_state := \<lparr>count = 0, buffer = [], last_time = 0\<rparr>\<rparr>"
proof -
  let ?l = "buffer (low_note_state r)" and ?h = "buffer (high_note_state r)"
  have a: "flush_buffer Low r =
     r\<lparr>current_track := Some (tr @ written (last_message_time r) ?l),
       last_message_time := last_written (last_message_time r) ?l,
       low_note_state := \<lparr>count = 0, buffer = [], last_time = 0\<rparr>\<rparr>"
    by (simp add: flush_buffer_def write_all_track [OF assms])
  have b: "current_track (flush_buffer Low r) = Some (tr @ written (last_message_time r) ?l)"
    by (simp add: a)
  show ?thesis
    unfolding flush_shortcut_buffers_def
    by (simp add: flush_buffer_def [of High] write_all_track [OF b])
       (simp add: a written_append last_written_append)
qed

lemma stop_recording_empty_queue:
  assumes "recording r" and "message_queue r = []"
    and "current_file r = Some tpb" and "current_track r = Some tr"
    and "1 < length tr \<longrightarrow> last_message_time r \<noteq> None"
  shows "\<exists>r'. stop_recording e suffix False False r = Inr r' \<and> \<not> recording r' \<and>
      current_file r' = None \<and> current_track r' = None \<and>
      low_note_state r' = empty_state \<and> high_note_state r' = empty_state \<and>
      message_queue r' = [] \<and> in_low_power r' = in_low_power r \<and>
      governor_log r' = governor_log r \<and> last_activity r' = last_activity r \<and>
      running r' = running r \<and>
      saved_files r' = saved_files r @
        (if 1 < length (tr @ written (last_message_time r)
                            (buffer (low_note_state r) @ buffer (high_note_state r)))
         then [\<lparr>file_path = session_stem e @ suffix @ ''.mid'', ticks_per_beat = tpb,
                tracks = [tr @ written (last_message_time r)
                            (buffer (low_note_state r) @ buffer (high_note_state r))]\<rparr>]
         else [])"
proof -
  let ?b = "buffer (low_note_state r) @ buffer (high_note_state r)"
  let ?r0 = "r\<lparr>recording := False\<rparr>"
  have q: "process_message_queue e ?r0 = Inr ?r0"
    using assms(2) by (simp add: process_message_queue_Nil)
  have t: "current_track ?r0 = Some tr"
    using assms(4) by simp
  have l: "1 < length (tr @ written (last_message_time r) ?b) \<Longrightarrow>
           last_written (last_message_time r) ?b \<noteq> None"
  proof (cases "?b = []")
    case True
    assume "1 < length (tr @ written (last_message_time r) ?b)"
    with True assms(5) show ?thesis by simp
  next
    case False
    then show ?thesis by (rule last_written_Some)
  qed
  show ?thesis
    using assms(1,2,3) l
    by (auto simp add: stop_recording_def q stop_recording_finish_def Let_def
        flush_shortcut_buffers_track [OF t] empty_state_def)
qed

section \<open>Two taps and an unrelated note\<close>

lemma get_state_updates [simp]:
  "get_state w (r\<lparr>current_track := a\<rparr>) = get_state w r"
  "get_state w (r\<lparr>last_message_time := b\<rparr>) = get_state w r"
  by (cases w; simp)+

lemma process_midi_message_tap:
  assumes "is_tap w m" and "recording r"
  shows "process_midi_message e m ts r =
    (case shortcut_body e w (reserved_suffix w) m ts (touch e r) of
       Inl x \<Rightarrow> Inl x
     | Inr (handled, r4) \<Rightarrow> Inr (if \<not> handled then write_message m ts r4 else r4))"
  using assms
  by (simp add: process_midi_message_recording handle_shortcuts_reserved is_tap_def)

lemma process_midi_message_unrelated:
  assumes "msg_type m = note_on \<or> msg_type m = note_off"
    and "msg_note m \<noteq> LOW_BLACK_NOTE" and "msg_note m \<noteq> HIGH_BLACK_NOTE"
    and "recording r"
  shows "process_midi_message e m ts r = Inr (write_message m ts (flush_counted (touch e r)))"
  using assms
  by (auto simp add: process_midi_message_recording handle_shortcuts_unrelated)

lemma two_taps_while_recording:
  assumes taps: "is_tap w m1" "is_tap w m2"
    and m3: "msg_type m3 = note_on \<or> msg_type m3 = note_off"
      "msg_note m3 \<noteq> LOW_BLACK_NOTE" "msg_note m3 \<noteq> HIGH_BLACK_NOTE"
    and fresh: "low_note_state r = empty_state" "high_note_state r = empty_state"
      "message_queue r = []"
    and rec: "recording r" "current_file r = Some tpb" "current_track r = Some tr"
  shows "\<exists>r1 r2 r3.
      process_midi_message e1 m1 t1 r = Inr r1 \<and>
      process_midi_message e2 m2 t2 r1 = Inr r2 \<and>
      process_midi_message e3 m3 t3 r2 = Inr r3 \<and>
      recording r3 \<and> current_file r3 = Some tpb \<and>
      current_track r3 =
        Some (tr @ [Message (m1\<lparr>msg_time := delta_ticks (last_message_time r) t1\<rparr>),
                    Message (m2\<lparr>msg_time := delta_ticks (Some t1) t2\<rparr>),
                    Message (m3\<lparr>msg_time := delta_ticks (Some t2) t3\<rparr>)]) \<and>
      last_message_time r3 = Some t3 \<and>
      buffer (low_note_state r3) = [] \<and> buffer (high_note_state r3) = [] \<and>
      message_queue r3 = [] \<and> saved_files r3 = saved_files r"
proof -
  let ?E1 = "Message (m1\<lparr>msg_time := delta_ticks (last_message_time r) t1\<rparr>)"
  let ?E2 = "Message (m2\<lparr>msg_time := delta_ticks (Some t1) t2\<rparr>)"
  let ?E3 = "Message (m3\<lparr>msg_time := delta_ticks (Some t2) t3\<rparr>)"
  have e: "get_state w r = empty_state" "get_state (other w) r = empty_state"
    using fresh by (cases w; simp)+
  \<comment> \<open>the first tap\<close>
  define r1 where "r1 = set_state w \<lparr>count = 1, buffer = [(m1, t1)], last_time = t1\<rparr> (touch e1 r)"
  have "shortcut_body e1 w (reserved_suffix w) m1 t1 (touch e1 r) = Inr (True, r1)"
    using taps(1) e(1)
    by (subst shortcut_body_tap) (simp_all add: is_tap_def empty_state_def r1_def)
  then have s1: "process_midi_message e1 m1 t1 r = Inr r1"
    using taps(1) rec(1) by (simp add: process_midi_message_tap)
  have r1: "recording r1" "current_file r1 = Some tpb" "current_track r1 = Some tr"
    "last_message_time r1 = last_message_time r" "message_queue r1 = []"
    "saved_files r1 = saved_files r"
    "get_state w r1 = \<lparr>count = 1, buffer = [(m1, t1)], last_time = t1\<rparr>"
    "get_state (other w) r1 = empty_state"
    using rec fresh(3) e(2) by (simp_all add: r1_def)
  \<comment> \<open>the second tap, in time or late\<close>
  have "\<exists>r2 tr2. process_midi_message e2 m2 t2 r1 = Inr r2 \<and> recording r2 \<and>
      current_file r2 = Some tpb \<and> current_track r2 = Some tr2 \<and>
      tr2 @ written (last_message_time r2) (buffer (get_state w r2)) = tr @ [?E1, ?E2] \<and>
      last_written (last_message_time r2) (buffer (get_state w r2)) = Some t2 \<and>
      0 < count (get_state w r2) \<and> get_state (other w) r2 = empty_state \<and>
      message_queue r2 = [] \<and> saved_files r2 = saved_files r"
  proof (cases "SHORTCUT_TIMEOUT < t2 - t1")
    case True
    define r2 where "r2 = set_state w \<lparr>count = 1, buffer = [(m2, t2)], last_time = t2\<rparr>
        (write_all [(m1, t1)] (touch e2 r1))"
    have "shortcut_body e2 w (reserved_suffix w) m2 t2 (touch e2 r1) = Inr (True, r2)"
      using taps(2) r1(7) True
      by (subst shortcut_body_late_tap) (simp_all add: is_tap_def r2_def)
    then have "process_midi_message e2 m2 t2 r1 = Inr r2"
      using taps(2) r1(1) by (simp add: process_midi_message_tap)
    moreover have "recording r2" "current_file r2 = Some tpb"
      "current_track r2 = Some (tr @ [?E1])" "last_message_time r2 = Some t1"
      "get_state w r2 = \<lparr>count = 1, buffer = [(m2, t2)], last_time = t2\<rparr>"
      "get_state (other w) r2 = empty_state" "message_queue r2 = []"
      "saved_files r2 = saved_files r"
      using r1 by (simp_all add: r2_def write_message_def)
    ultimately show ?thesis by simp
  next
    case False
    define r2 where "r2 = set_state w \<lparr>count = 2, buffer = [(m1, t1), (m2, t2)], last_time = t2\<rparr>
        (touch e2 r1)"
    have "shortcut_body e2 w (reserved_suffix w) m2 t2 (touch e2 r1) = Inr (True, r2)"
      using taps(2) r1(7) False
      by (subst shortcut_body_tap) (simp_all add: is_tap_def r2_def)
    then have "process_midi_message e2 m2 t2 r1 = Inr r2"
      using taps(2) r1(1) by (simp add: process_midi_message_tap)
    moreover have "recording r2" "current_file r2 = Some tpb"
      "current_track r2 = Some tr" "last_message_time r2 = last_message_time r"
      "get_state w r2 = \<lparr>count = 2, buffer = [(m1, t1), (m2, t2)], last_time = t2\<rparr>"
      "get_state (other w) r2 = empty_state" "message_queue r2 = []"
      "saved_files r2 = saved_files r"
      using r1 by (simp_all add: r2_def)
    ultimately show ?thesis by simp
  qed
  then obtain r2 tr2 where s2: "process_midi_message e2 m2 t2 r1 = Inr r2"
    and r2: "recording r2" "current_file r2 = Some tpb" "current_track r2 = Some tr2"
      "tr2 @ written (last_message_time r2) (buffer (get_state w r2)) = tr @ [?E1, ?E2]"
      "last_written (last_message_time r2) (buffer (get_state w r2)) = Some t2"
      "0 < count (get_state w r2)" "get_state (other w) r2 = empty_state"
      "message_queue r2 = []" "saved_files r2 = saved_files r"
    by blast
  \<comment> \<open>the unrelated note\<close>
  define r3 where "r3 = write_message m3 t3 (flush_buffer w (touch e3 r2))"
  have "flush_counted (touch e3 r2) = flush_buffer w (touch e3 r2)"
    using r2(6,7) by (intro flush_counted_one) (simp_all add: empty_state_def)
  then have s3: "process_midi_message e3 m3 t3 r2 = Inr r3"
    using m3 r2(1) by (simp add: process_midi_message_unrelated r3_def)
  have t: "current_track (touch e3 r2) = Some tr2" using r2(3) by simp
  have fl: "flush_buffer w (touch e3 r2) =
      set_state w \<lparr>count = 0, buffer = [], last_time = 0\<rparr>
        ((touch e3 r2)\<lparr>current_track := Some (tr @ [?E1, ?E2]), last_message_time := Some t2\<rparr>)"
    using r2(4,5) by (simp add: flush_buffer_def write_all_track [OF t])
  have bufs: "buffer (low_note_state r3) = [] \<and> buffer (high_note_state r3) = []"
    using r2(7) by (cases w) (simp_all add: r3_def flush_buffer_def empty_state_def)
  have "recording r3" "current_file r3 = Some tpb"
    "current_track r3 = Some (tr @ [?E1, ?E2, ?E3])" "last_message_time r3 = Some t3"
    "message_queue r3 = []" "saved_files r3 = saved_files r"
    using r2 by (simp_all add: r3_def fl write_message_def)
  with s1 s2 s3 bufs show ?thesis by blast
qed

text \<open>
  A reserved note is tapped twice, then a note that is neither reserved note arrives, and
  the shortcut buffers were empty before. When the recorder is idle, or is recording and
  holds a file and a track, the three messages are processed without error, whatever
  their timestamps, and the file saved when the session is then stopped holds the track
  as it was, followed by the first tap, the second tap and the other note, in this order,
  each with its tick delta to the one before.
\<close>

lemma two_taps_written_in_order:
  assumes "is_tap w m1" and "is_tap w m2"
    and "msg_type m3 = note_on \<or> msg_type m3 = note_off"
    and "msg_note m3 \<noteq> LOW_BLACK_NOTE" and "msg_note m3 \<noteq> HIGH_BLACK_NOTE"
    and "low_note_state r = empty_state" and "high_note_state r = empty_state"
    and "message_queue r = []"
    and "recording r \<longrightarrow> current_file r = Some tpb \<and> current_track r = Some tr"
  shows "\<exists>r1 r2 r3 r4.
      process_midi_message e1 m1 t1 r = Inr r1 \<and>
      process_midi_message e2 m2 t2 r1 = Inr r2 \<and>
      process_midi_message e3 m3 t3 r2 = Inr r3 \<and>
      stop_recording e4 [] False False r3 = Inr r4 \<and>
      saved_files r4 = saved_files r @
        [\<lparr>file_path = session_stem e4 @ ''.mid'',
          ticks_per_beat = (if recording r then tpb else TICKS_PER_BEAT),
          tracks = [(if recording r then tr else [tempo_msg]) @
            [Message (m1\<lparr>msg_time :=
                delta_ticks (if recording r then last_message_time r else None) t1\<rparr>),
             Message (m2\<lparr>msg_time := delta_ticks (Some t1) t2\<rparr>),
             Message (m3\<lparr>msg_time := delta_ticks (Some t2) t3\<rparr>)]]\<rparr>]"
proof -
  define s where "s = (if recording r then r
                       else (start_recording e1 r)\<lparr>first_message_time := Some t1\<rparr>)"
  define tpb' where "tpb' = (if recording r then tpb else TICKS_PER_BEAT)"
  define tr' where "tr' = (if recording r then tr else [tempo_msg])"
  define l where "l = (if recording r then last_message_time r else None)"
  have first: "process_midi_message e1 m1 t1 r = process_midi_message e1 m1 t1 s"
  proof (cases "recording r")
    case True
    then show ?thesis by (simp add: s_def)
  next
    case False
    with assms(1) show ?thesis
      unfolding s_def by (simp add: process_midi_message_idle is_tap_def)
  qed
  have s: "recording s" "current_file s = Some tpb'" "current_track s = Some tr'"
    "last_message_time s = l" "low_note_state s = empty_state"
    "high_note_state s = empty_state" "message_queue s = []" "saved_files s = saved_files r"
    using assms(6-9)
    by (simp_all add: s_def tpb'_def tr'_def l_def start_recording_def)
  from two_taps_while_recording [OF assms(1-5) s(5,6,7,1,2,3), of e1 t1 e2 t2 e3 t3]
  obtain r1 r2 r3 where steps: "process_midi_message e1 m1 t1 s = Inr r1"
      "process_midi_message e2 m2 t2 r1 = Inr r2"
      "process_midi_message e3 m3 t3 r2 = Inr r3"
    and r3: "recording r3" "current_file r3 = Some tpb'"
      "current_track r3 =
        Some (tr' @ [Message (m1\<lparr>msg_time := delta_ticks l t1\<rparr>),
                     Message (m2\<lparr>msg_time := delta_ticks (Some t1) t2\<rparr>),
                     Message (m3\<lparr>msg_time := delta_ticks (Some t2) t3\<rparr>)])"
      "last_message_time r3 = Some t3"
      "buffer (low_note_state r3) = []" "buffer (high_note_state r3) = []"
      "message_queue r3 = []" "saved_files r3 = saved_files r"
    unfolding s(4,8) by blast
  have "1 < length (tr' @ [Message (m1\<lparr>msg_time := delta_ticks l t1\<rparr>),
                     Message (m2\<lparr>msg_time := delta_ticks (Some t1) t2\<rparr>),
                     Message (m3\<lparr>msg_time := delta_ticks (Some t2) t3\<rparr>)]) \<longrightarrow>
        last_message_time r3 \<noteq> None"
    using r3(4) by simp
  from stop_recording_empty_queue [OF r3(1) r3(7) r3(2) r3(3) this, of e4 "[]"]
  obtain r4 where "stop_recording e4 [] False False r3 = Inr r4"
    and "saved_files r4 = saved_files r @
        [\<lparr>file_path = session_stem e4 @ ''.mid'', ticks_per_beat = tpb',
          tracks = [tr' @ [Message (m1\<lparr>msg_time := delta_ticks l t1\<rparr>),
                     Message (m2\<lparr>msg_time := delta_ticks (Some t1) t2\<rparr>),
                     Message (m3\<lparr>msg_time := delta_ticks (Some t2) t3\<rparr>)]]\<rparr>]"
    using r3(5,6,8) by auto
  with first steps show ?thesis
    unfolding tpb'_def tr'_def l_def by metis
qed

lemma two_taps_written_in_order_example:
  "\<exists>r1 r2 r3 r4.
      process_midi_message e0 (Msg note_on 22 64) 11 playing = Inr r1 \<and>
      process_midi_message e0 (Msg note_on 22 64) (23/2) r1 = Inr r2 \<and>
      process_midi_message e0 (Msg note_on 62 64) 13 r2 = Inr r3 \<and>
      stop_recording e0 [] False False r3 = Inr r4 \<and>
      saved_files r4 =
        [\<lparr>file_path = ''session_120000.mid'', ticks_per_beat = 480,
          tracks = [[tempo_msg, Message (Msg note_on 60 64),
             Message ((Msg note_on 22 64)\<lparr>msg_time := 960\<rparr>),
             Message ((Msg note_on 22 64)\<lparr>msg_time := 480\<rparr>),
             Message ((Msg note_on 62 64)\<lparr>msg_time := 1440\<rparr>)]]\<rparr>]"
proof -
  have d: "delta_ticks (Some 10) 11 = 960" "delta_ticks (Some 11) (23/2) = 480"
    "delta_ticks (Some (23/2)) 13 = 1440"
    by (simp_all add: delta_ticks_Some fl_def expo_def compute_bitlen round_even_def)
  show ?thesis
    using two_taps_written_in_order [of Low "Msg note_on 22 64" "Msg note_on 22 64"
      "Msg note_on 62 64" playing 480 "[tempo_msg, Message (Msg note_on 60 64)]"
      e0 11 e0 "23/2" e0 13 e0]
    by (simp add: d is_tap_def Msg_def playing_def init_def e0_def LOW_BLACK_NOTE_def
          HIGH_BLACK_NOTE_def TICKS_PER_BEAT_def)
qed

text \<open>
  C4 fails on the code. \<open>stop_recording\<close> clears the recording flag and then drains the
  queue; a message that is waiting there is processed with the flag cleared, so it starts
  a new session (a new file and track, the flag set again). \<open>stop_recording\<close> then saves
  that new track, drops the file and the track, and returns with the flag still set. This
  happens in \<open>restart_in_stop\<close>, where the release of note 60 is queued when the session
  times out. From then on the recorder is recording without a track: in \<open>lost_taps\<close> the two
  taps of the low note are buffered, note 64 flushes them, and \<open>write_message\<close> writes
  neither the taps nor note 64, as there is no track. The next timeout saves nothing. The
  only file saved holds the release of note 60; the taps and note 64 are in no file.
\<close>

theorem taps_lost_without_track:
  "recording (run_calls restart_in_stop) \<and>
   current_file (run_calls restart_in_stop) = None \<and>
   current_track (run_calls restart_in_stop) = None \<and>
   saved_files (run_calls restart_in_stop) =
     [\<lparr>file_path = ''session_120000.mid'', ticks_per_beat = 480,
       tracks = [[tempo_msg, Message (Msg note_off 60 0)]]\<rparr>] \<and>
   \<not> recording (run_calls lost_taps) \<and>
   message_queue (run_calls lost_taps) = [] \<and>
   low_note_state (run_calls lost_taps) = empty_state \<and>
   high_note_state (run_calls lost_taps) = empty_state \<and>
   current_track (run_calls lost_taps) = None \<and>
   saved_files (run_calls lost_taps) =
     [\<lparr>file_path = ''session_120000.mid'', ticks_per_beat = 480,
       tracks = [[tempo_msg, Message (Msg note_off 60 0)]]\<rparr>]"
proof -
  have a: "run_calls restart_in_stop =
     init\<lparr>recording := True, last_activity := Some 1006,
          session_start_time := Some 6, first_message_time := Some 6,
          last_message_time := Some 6, in_low_power := True,
          saved_files := [\<lparr>file_path = ''session_120000.mid'', ticks_per_beat = 480,
            tracks = [[tempo_msg, Message (Msg note_off 60 0)]]\<rparr>],
          governor_log := [''powersave'']\<rparr>"
    by (simp add: restart_in_stop_def run_calls_def midi_callback_def caught_def e0_def
        Msg_def init_def process_message_queue.simps process_midi_message_def
        start_recording_def handle_shortcuts_def flush_counted_def
        flush_buffer_def write_message_def Let_def
        check_session_timeout_def stop_recording_def stop_recording_finish_def
        flush_shortcut_buffers_def enter_low_power_mode_def truthy_def
        LOW_BLACK_NOTE_def HIGH_BLACK_NOTE_def SESSION_TIMEOUT_def empty_state_def
        TICKS_PER_BEAT_def DEFAULT_TEMPO_def)
  have "run_calls lost_taps = foldl step (run_calls restart_in_stop) (drop 4 lost_taps)"
    by (simp add: lost_taps_def run_calls_def restart_in_stop_def)
  then have b: "run_calls lost_taps =
     init\<lparr>last_activity := Some 1012,
          session_start_time := Some 6, first_message_time := Some 6,
          last_message_time := Some 6, in_low_power := True,
          saved_files := [\<lparr>file_path = ''session_120000.mid'', ticks_per_beat = 480,
            tracks = [[tempo_msg, Message (Msg note_off 60 0)]]\<rparr>],
          governor_log := [''powersave'', ''ondemand'', ''powersave'']\<rparr>"
    unfolding a
    by (simp add: lost_taps_def restart_in_stop_def midi_callback_def caught_def e0_def
        Msg_def init_def process_message_queue.simps process_midi_message_def
        exit_low_power_mode_def
        start_recording_def handle_shortcuts_def shortcut_body_def flush_counted_def
        flush_buffer_def write_message_def Let_def
        check_session_timeout_def stop_recording_def stop_recording_finish_def
        flush_shortcut_buffers_def enter_low_power_mode_def truthy_def
        LOW_BLACK_NOTE_def HIGH_BLACK_NOTE_def SESSION_TIMEOUT_def SHORTCUT_TIMEOUT_def
        empty_state_def TICKS_PER_BEAT_def DEFAULT_TEMPO_def)
  show ?thesis
    unfolding a b by (simp add: init_def empty_state_def)
qed

section \<open>The session timeout\<close>

lemma stop_recording_no_file:
  assumes "recording r" and "message_queue r = []" and "current_file r = None"
  shows "\<exists>r'. stop_recording e suffix False False r = Inr r' \<and> \<not> recording r' \<and>
      current_file r' = None \<and> current_track r' = None \<and>
      low_note_state r' = empty_state \<and> high_note_state r' = empty_state \<and>
      message_queue r' = [] \<and> in_low_power r' = in_low_power r \<and>
      governor_log r' = governor_log r \<and> last_activity r' = last_activity r \<and>
      running r' = running r"
proof -
  let ?r0 = "r\<lparr>recording := False\<rparr>"
  have q: "process_message_queue e ?r0 = Inr ?r0"
    using assms(2) by (simp add: process_message_queue_Nil)
  show ?thesis
    using assms
    by (simp add: stop_recording_def q stop_recording_finish_def Let_def
        flush_shortcut_buffers_def flush_buffer_def empty_state_def)
qed

lemma stop_recording_well_formed:
  assumes "recording r" and "message_queue r = []" and "well_formed r"
  shows "\<exists>r'. stop_recording e suffix False False r = Inr r' \<and> \<not> recording r' \<and>
      current_file r' = None \<and> current_track r' = None \<and>
      low_note_state r' = empty_state \<and> high_note_state r' = empty_state \<and>
      message_queue r' = [] \<and> in_low_power r' = in_low_power r \<and>
      governor_log r' = governor_log r \<and> last_activity r' = last_activity r \<and>
      running r' = running r"
proof (cases "current_track r")
  case None
  with assms(3) have "current_file r = None" by (simp add: well_formed_def)
  with assms(1,2) show ?thesis by (rule stop_recording_no_file)
next
  case (Some tr)
  with assms(3) obtain tpb where "current_file r = Some tpb"
    and "1 < length tr \<longrightarrow> last_message_time r \<noteq> None"
    by (auto simp add: well_formed_def)
  from stop_recording_empty_queue [OF assms(1,2) this(1) Some this(2), of e suffix]
  show ?thesis by blast
qed

text \<open>
  C8. Take a well-formed recorder that is recording, with an empty queue (nothing arrived)
  and an activity time \<open>t\<close> that Python counts as true (not 0.0). A timeout check at most
  \<open>SESSION_TIMEOUT\<close> (5) seconds after \<open>t\<close> changes nothing. A check more than 5 seconds
  after \<open>t\<close> stops the session and enters low-power mode: the governor is set to
  \<open>powersave\<close> once (not at all if the recorder was in low-power mode already), and every
  later check, at any time, leaves the idle recorder as it is, so low-power mode is not
  entered again.
\<close>

theorem idle_timeout_stops_once:
  assumes "recording r" and "message_queue r = []" and "well_formed r"
    and "last_activity r = Some t" and "t \<noteq> 0"
  shows "(time_time e - t \<le> SESSION_TIMEOUT \<longrightarrow> check_session_timeout e r = Inr r) \<and>
    (SESSION_TIMEOUT < time_time e - t \<longrightarrow>
      (\<exists>r'. check_session_timeout e r = Inr r' \<and> \<not> recording r' \<and>
            current_track r' = None \<and> in_low_power r' \<and>
            governor_log r' =
              governor_log r @ (if in_low_power r then [] else [''powersave'']) \<and>
            (\<forall>e'. check_session_timeout e' r' = Inr r')))"
proof -
  have a: "check_session_timeout e r = Inr r" if "time_time e - t \<le> SESSION_TIMEOUT"
    using that assms(4) by (simp add: check_session_timeout_def)
  have b: "\<exists>r'. check_session_timeout e r = Inr r' \<and> \<not> recording r' \<and>
            current_track r' = None \<and> in_low_power r' \<and>
            governor_log r' =
              governor_log r @ (if in_low_power r then [] else [''powersave'']) \<and>
            (\<forall>e'. check_session_timeout e' r' = Inr r')"
    if late: "SESSION_TIMEOUT < time_time e - t"
  proof -
    from stop_recording_well_formed [OF assms(1-3), of e "[]"]
    obtain s where s: "stop_recording e [] False False r = Inr s" "\<not> recording s"
      "current_track s = None" "in_low_power s = in_low_power r"
      "governor_log s = governor_log r"
      by blast
    have c: "check_session_timeout e r = Inr (enter_low_power_mode s)"
      using assms(1,4,5) late s(1) by (simp add: check_session_timeout_def truthy_def)
    have "\<not> recording (enter_low_power_mode s)"
      "current_track (enter_low_power_mode s) = None"
      "in_low_power (enter_low_power_mode s)"
      "governor_log (enter_low_power_mode s) =
         governor_log r @ (if in_low_power r then [] else [''powersave''])"
      using s(2-5) by (simp_all add: enter_low_power_mode_def)
    moreover from this(1) have "\<forall>e'. check_session_timeout e' (enter_low_power_mode s) =
        Inr (enter_low_power_mode s)"
      by (simp add: check_session_timeout_def)
    ultimately show ?thesis using c by blast
  qed
  from a b show ?thesis by blast
qed

theorem idle_timeout_stops_once_witness:
  "check_session_timeout (e0\<lparr>time_time := 1005\<rparr>) playing = Inr playing \<and>
   (\<exists>r'. check_session_timeout (e0\<lparr>time_time := 1006\<rparr>) playing = Inr r' \<and>
         \<not> recording r' \<and> in_low_power r' \<and> governor_log r' = [''powersave''] \<and>
         check_session_timeout (e0\<lparr>time_time := 1012\<rparr>) r' = Inr r')"
  using idle_timeout_stops_once [of playing 1000 "e0\<lparr>time_time := 1005\<rparr>"]
    idle_timeout_stops_once [of playing 1000 "e0\<lparr>time_time := 1006\<rparr>"]
  by (auto simp add: playing_def init_def well_formed_def SESSION_TIMEOUT_def)

section \<open>Accumulated tick deltas\<close>

lemma written_nonneg: "e \<in> set (written l evs) \<Longrightarrow> 0 \<le> entry_time e"
  by (induction l evs rule: written.induct) (auto simp: delta_ticks_nonneg)

lemma written_bounds:
  "sorted_wrt (<) (a # map snd evs) \<Longrightarrow>
   real_of_int (sum_list (map entry_time (written (Some a) evs)))
     \<le> (last (a # map snd evs) - a) * 960 * (1 + 1 / 2 ^ 51) \<and>
   (last (a # map snd evs) - a) * 960 * (1 - 1 / 2 ^ 51) - real (length evs)
     \<le> real_of_int (sum_list (map entry_time (written (Some a) evs)))"
proof (induction evs arbitrary: a)
  case Nil
  then show ?case by simp
next
  case (Cons x evs)
  obtain m t where x: "x = (m, t)" by (cases x)
  from Cons.prems x have at: "a \<le> t" and rest: "sorted_wrt (<) (t # map snd evs)"
    by simp_all
  let ?d = "delta_ticks (Some a) t"
  let ?T = "sum_list (map entry_time (written (Some t) evs))"
  define z where "z = last (t # map snd evs)"
  define hi where "hi = 1 + 1 / (2::real) ^ 51"
  define lo where "lo = 1 - 1 / (2::real) ^ 51"
  from delta_ticks_close [OF at]
  have d: "real_of_int ?d \<le> (t - a) * 960 * hi" "(t - a) * 960 * lo - 1 < real_of_int ?d"
    unfolding hi_def lo_def by simp_all
  from Cons.IH [OF rest]
  have "real_of_int ?T \<le> (z - t) * 960 * hi \<and>
        (z - t) * 960 * lo - real (length evs) \<le> real_of_int ?T"
    unfolding z_def hi_def lo_def .
  then have ih: "real_of_int ?T \<le> (z - t) * 960 * hi"
    "(z - t) * 960 * lo - real (length evs) \<le> real_of_int ?T"
    by simp_all
  have l: "last (a # map snd (x # evs)) = z"
    using x by (simp add: z_def)
  have s: "sum_list (map entry_time (written (Some a) (x # evs))) = ?d + ?T"
    using x by simp
  have n: "real (length (x # evs)) = real (length evs) + 1"
    by simp
  have split: "(z - a) * 960 * hi = (z - t) * 960 * hi + (t - a) * 960 * hi"
    "(z - a) * 960 * lo = (z - t) * 960 * lo + (t - a) * 960 * lo"
    by (simp_all add: algebra_simps)
  have "real_of_int (?d + ?T) \<le> (z - a) * 960 * hi"
    and "(z - a) * 960 * lo - (real (length evs) + 1) \<le> real_of_int (?d + ?T)"
    unfolding split using d ih by simp_all
  then show ?case
    unfolding l s n hi_def lo_def by simp
qed

text \<open>
  C6 (amended). Messages with strictly increasing timestamps \<open>t0 < t1 < ... < tn\<close>, less
  than \<open>2^1000\<close> seconds from first to last, are written one after the other to the track
  of a session that has just started. Every entry written has a tick delta that is an
  integer and at least 0. The sum of the deltas, converted back to seconds at the fixed
  tempo, is at most the elapsed time \<open>tn - t0\<close> enlarged by the fraction \<open>2^-51\<close> (the
  float operations round), and at least the elapsed time reduced by that fraction, less
  \<open>n\<close> ticks' worth of time: each delta is rounded down on its own against the previous
  timestamp, so up to one tick is lost per message after the first.
\<close>

theorem tick_deltas_accumulate_rounded:
  assumes "sorted_wrt (<) (map snd evs)" and "evs \<noteq> []"
    and "snd (last evs) - snd (hd evs) < 2 ^ 1000"
    and "current_track r = Some [tempo_msg]" and "last_message_time r = None"
  shows "current_track (write_all evs r) = Some (tempo_msg # written None evs) \<and>
    (\<forall>e \<in> set (written None evs). 0 \<le> entry_time e) \<and>
    seconds_of_ticks (session_ticks (write_all evs r))
      \<le> (snd (last evs) - snd (hd evs)) * (1 + 1 / 2 ^ 51) \<and>
    (snd (last evs) - snd (hd evs)) * (1 - 1 / 2 ^ 51) - seconds_of_ticks (int (length evs) - 1)
      \<le> seconds_of_ticks (session_ticks (write_all evs r))"
proof -
  obtain m t rest where evs: "evs = (m, t) # rest"
    using assms(2) by (cases evs) auto
  have tr: "current_track (write_all evs r) = Some (tempo_msg # written None evs)"
    using assms(4,5) by (simp add: write_all_track [OF assms(4)])
  let ?T = "sum_list (map entry_time (written (Some t) rest))"
  have ticks: "session_ticks (write_all evs r) = ?T"
    unfolding session_ticks_def tr by (simp add: evs tempo_msg_def)
  define z where "z = last (t # map snd rest)"
  have "sorted_wrt (<) (t # map snd rest)"
    using assms(1) evs by simp
  from written_bounds [OF this]
  have "real_of_int ?T \<le> (z - t) * 960 * (1 + 1 / 2 ^ 51) \<and>
        (z - t) * 960 * (1 - 1 / 2 ^ 51) - real (length rest) \<le> real_of_int ?T"
    unfolding z_def .
  then have b: "real_of_int ?T \<le> (z - t) * 960 * (1 + 1 / 2 ^ 51)"
    "(z - t) * 960 * (1 - 1 / 2 ^ 51) - real (length rest) \<le> real_of_int ?T"
    by simp_all
  have l: "snd (last evs) - snd (hd evs) = z - t"
    unfolding z_def evs by (simp add: last_map)
  have n: "int (length evs) - 1 = int (length rest)"
    by (simp add: evs)
  have s: "seconds_of_ticks d = real_of_int d / 960" for d
    by (simp add: seconds_of_ticks_def TICKS_PER_BEAT_def DEFAULT_TEMPO_def)
  have "seconds_of_ticks ?T \<le> (snd (last evs) - snd (hd evs)) * (1 + 1 / 2 ^ 51)"
    and "(snd (last evs) - snd (hd evs)) * (1 - 1 / 2 ^ 51) - seconds_of_ticks (int (length evs) - 1)
      \<le> seconds_of_ticks ?T"
    unfolding l n s using b by (simp_all add: field_simps)
  with tr ticks show ?thesis
    by (auto simp: written_nonneg)
qed

theorem tick_deltas_accumulate_rounded_witness:
  "seconds_of_ticks (session_ticks (write_all three_notes fresh)) \<le> 1/256 * (1 + 1 / 2 ^ 51) \<and>
   1/256 * (1 - 1 / 2 ^ 51) - 2/960 \<le> seconds_of_ticks (session_ticks (write_all three_notes fresh))"
  using tick_deltas_accumulate_rounded [of three_notes fresh]
  by (simp add: three_notes_def fresh_def start_recording_def init_def seconds_of_ticks_def
        TICKS_PER_BEAT_def DEFAULT_TEMPO_def)

text \<open>
  The bound of one tick fails for three messages 1.875 ticks apart (at 0, 1/512 and 1/256
  seconds, where no operation rounds): the deltas are 0, 1 and 1, two ticks for an
  elapsed time of 3.75 ticks.
\<close>

theorem tick_error_exceeds_one_tick_counterexample:
  "session_ticks (write_all three_notes fresh) = 2 \<and>
   \<not> \<bar>(1/256 - 0) - seconds_of_ticks (session_ticks (write_all three_notes fresh))\<bar>
       \<le> seconds_of_ticks 1"
proof -
  have d: "delta_ticks (Some 0) (1/512) = 1" "delta_ticks (Some (1/512)) (1/256) = 1"
    by (simp_all add: delta_ticks_Some fl_def expo_def compute_bitlen round_even_def)
  have "session_ticks (write_all three_notes fresh) = 2"
    by (simp add: three_notes_def fresh_def start_recording_def init_def session_ticks_def
        write_message_def d tempo_msg_def Msg_def)
  then show ?thesis
    by (simp add: seconds_of_ticks_def TICKS_PER_BEAT_def DEFAULT_TEMPO_def)
qed

section \<open>The tick deltas of every session\<close>

lemma track_ok_iff:
  "track_ok tr \<longleftrightarrow>
     (\<exists>es. tr = tempo_msg # es \<and> (\<forall>e\<in>set es. 0 \<le> entry_time e) \<and>
           (es \<noteq> [] \<longrightarrow> entry_time (hd es) = 0))"
  by (auto simp add: track_ok_def list_all_iff split: list.splits)

lemma track_ok_snoc:
  assumes "track_ok tr" and "0 \<le> entry_time e" and "length tr = 1 \<longrightarrow> entry_time e = 0"
  shows "track_ok (tr @ [e])"
proof -
  from assms(1) obtain es where es: "tr = tempo_msg # es" "\<forall>e\<in>set es. 0 \<le> entry_time e"
    "es \<noteq> [] \<longrightarrow> entry_time (hd es) = 0"
    unfolding track_ok_iff by blast
  have "tr @ [e] = tempo_msg # (es @ [e])" using es(1) by simp
  moreover have "\<forall>x\<in>set (es @ [e]). 0 \<le> entry_time x" using es(2) assms(2) by auto
  moreover have "entry_time (hd (es @ [e])) = 0"
    using es(1,3) assms(3) by (cases es) auto
  ultimately show ?thesis unfolding track_ok_iff by blast
qed

lemma session_inv_write_message:
  assumes "session_inv r"
  shows "session_inv (write_message m ts r)"
proof (cases "current_track r")
  case None
  with assms show ?thesis by (simp add: write_message_def)
next
  case (Some tr)
  let ?e = "Message (m\<lparr>msg_time := delta_ticks (last_message_time r) ts\<rparr>)"
  from assms Some have ok: "track_ok tr" and one: "length tr = 1 \<longrightarrow> last_message_time r = None"
    and f: "current_file r \<noteq> None"
    and saved: "list_all (\<lambda>f. list_all track_ok (tracks f)) (saved_files r)"
    by (simp_all add: session_inv_def well_formed_def)
  have "delta_ticks None ts = 0"
    by simp
  with one have "length tr = 1 \<longrightarrow> entry_time ?e = 0" by auto
  with ok have "track_ok (tr @ [?e])"
    by (intro track_ok_snoc) (simp_all add: delta_ticks_nonneg)
  moreover from ok have "tr \<noteq> []" by (auto simp: track_ok_def)
  ultimately show ?thesis
    using Some f saved by (simp add: session_inv_def well_formed_def write_message_def)
qed

lemma session_inv_write_all: "session_inv r \<Longrightarrow> session_inv (write_all evs r)"
  by (induction evs arbitrary: r) (auto simp: session_inv_write_message)

lemma session_inv_notes [simp]:
  "session_inv (r\<lparr>low_note_state := s\<rparr>) = session_inv r"
  "session_inv (r\<lparr>high_note_state := s\<rparr>) = session_inv r"
  "session_inv (r\<lparr>message_queue := q\<rparr>) = session_inv r"
  "session_inv (r\<lparr>recording := b\<rparr>) = session_inv r"
  "session_inv (r\<lparr>running := b\<rparr>) = session_inv r"
  "session_inv (r\<lparr>last_activity := a\<rparr>) = session_inv r"
  "session_inv (r\<lparr>first_message_time := a\<rparr>) = session_inv r"
  "session_inv (r\<lparr>in_low_power := b\<rparr>) = session_inv r"
  "session_inv (r\<lparr>governor_log := g\<rparr>) = session_inv r"
  by (simp_all add: session_inv_def well_formed_def split: option.splits)

lemma session_inv_set_state [simp]: "session_inv (set_state w s r) = session_inv r"
  by (cases w) simp_all

lemma session_inv_flush_buffer: "session_inv r \<Longrightarrow> session_inv (flush_buffer w r)"
  by (simp add: flush_buffer_def session_inv_write_all)

lemma session_inv_flush_counted: "session_inv r \<Longrightarrow> session_inv (flush_counted r)"
  by (simp add: flush_counted_def Let_def session_inv_flush_buffer)

lemma session_inv_flush_shortcut_buffers:
  "session_inv r \<Longrightarrow> session_inv (flush_shortcut_buffers r)"
  by (simp add: flush_shortcut_buffers_def session_inv_flush_buffer)

lemma session_inv_touch [simp]: "session_inv (touch e r) = session_inv r"
  by (simp add: touch_def exit_low_power_mode_def)

lemma session_inv_start_recording:
  "session_inv r \<Longrightarrow> session_inv (start_recording e r)"
  by (simp add: start_recording_def session_inv_def well_formed_def track_ok_def)

lemma session_inv_enter_low_power_mode [simp]:
  "session_inv (enter_low_power_mode r) = session_inv r"
  by (simp add: enter_low_power_mode_def)

lemma session_inv_exit_low_power_mode [simp]:
  "session_inv (exit_low_power_mode r) = session_inv r"
  by (simp add: exit_low_power_mode_def)

lemma session_inv_stop_recording_finish:
  assumes "session_inv r"
  shows "\<exists>r'. stop_recording_finish e suffix sb r = Inr r' \<and> session_inv r'"
proof -
  define r1 where "r1 = (if \<not> sb then flush_shortcut_buffers r
                else r\<lparr>low_note_state := \<lparr>count = 0, buffer = [], last_time = 0\<rparr>,
                       high_note_state := \<lparr>count = 0, buffer = [], last_time = 0\<rparr>\<rparr>)"
  have inv: "session_inv r1"
    using assms by (simp add: r1_def session_inv_flush_shortcut_buffers)
  show ?thesis
    unfolding stop_recording_finish_def Let_def r1_def [symmetric]
    using inv
    by (auto simp add: session_inv_def well_formed_def split: option.splits)
qed

lemma session_inv_stop_recording_skip_queue:
  "session_inv r \<Longrightarrow>
   \<exists>r'. stop_recording_skip_queue e suffix sb r = Inr r' \<and> session_inv r'"
  using session_inv_stop_recording_finish [of "r\<lparr>recording := False, message_queue := []\<rparr>" e suffix sb]
  by (simp add: stop_recording_skip_queue_def)

lemma session_inv_shortcut_body:
  assumes "session_inv r"
  shows "\<exists>h r'. shortcut_body e w suffix m ts r = Inr (h, r') \<and> session_inv r'"
proof -
  define r1 where "r1 = (if msg_type m = note_on \<and> count (get_state w r) > 0 \<and>
                   ts - last_time (get_state w r) > SHORTCUT_TIMEOUT
                then flush_buffer w r else r)"
  define r2 where "r2 = set_state w ((get_state w r1)\<lparr>buffer := buffer (get_state w r1) @ [(m, ts)]\<rparr>) r1"
  define r3 where "r3 = set_state w ((get_state w r2)\<lparr>count := count (get_state w r2) + 1,
                                                    last_time := ts\<rparr>) r2"
  have inv: "session_inv r2" "session_inv (r3\<lparr>message_queue := []\<rparr>)" "session_inv r3"
    using assms by (simp_all add: r1_def r2_def r3_def session_inv_flush_buffer)
  from session_inv_stop_recording_skip_queue [OF inv(2), of e suffix True]
  obtain r4 where "stop_recording_skip_queue e suffix True (r3\<lparr>message_queue := []\<rparr>) = Inr r4"
    and "session_inv r4"
    by blast
  with inv show ?thesis
    unfolding shortcut_body_def Let_def r1_def [symmetric] r2_def [symmetric] r3_def [symmetric]
    by auto
qed

lemma session_inv_handle_shortcuts:
  assumes "session_inv r"
  shows "\<exists>h r'. handle_shortcuts e m ts r = Inr (h, r') \<and> session_inv r'"
  using session_inv_shortcut_body [OF assms, of e Low "[]" m ts]
    session_inv_shortcut_body [OF assms, of e High "''-bookmark''" m ts]
    session_inv_flush_counted [OF assms]
  by (auto simp add: handle_shortcuts_def)

lemma session_inv_process_midi_message:
  assumes "session_inv r"
  shows "\<exists>r'. process_midi_message e m ts r = Inr r' \<and> session_inv r'"
proof (cases "msg_type m = clock \<or> msg_type m = active_sensing")
  case True
  with assms show ?thesis by (auto simp add: process_midi_message_def)
next
  case False
  define r1 where "r1 = r\<lparr>last_activity := Some (time_time e)\<rparr>"
  define r2 where "r2 = (if \<not> recording r1
                   then (start_recording e r1)\<lparr>first_message_time := Some ts\<rparr>
                   else r1)"
  define r3 where "r3 = (if in_low_power r2 then exit_low_power_mode r2 else r2)"
  have "session_inv r3"
    using assms by (simp add: r1_def r2_def r3_def session_inv_start_recording)
  from session_inv_handle_shortcuts [OF this, of e m ts]
  obtain h r4 where "handle_shortcuts e m ts r3 = Inr (h, r4)" and "session_inv r4"
    by blast
  with False show ?thesis
    unfolding process_midi_message_def Let_def r1_def [symmetric] r2_def [symmetric]
      r3_def [symmetric]
    by (simp add: session_inv_write_message)
qed

lemma session_inv_process_message_queue:
  "session_inv r \<Longrightarrow> \<exists>r'. process_message_queue e r = Inr r' \<and> session_inv r'"
proof (induction e r rule: process_message_queue.induct)
  case (1 e r)
  show ?case
  proof (cases "message_queue r")
    case Nil
    with "1.prems" show ?thesis by (simp add: process_message_queue_Nil)
  next
    case (Cons x q)
    obtain m ts where x: "x = (m, ts)" by (cases x)
    from "1.prems" have "session_inv (r\<lparr>message_queue := q\<rparr>)" by simp
    from session_inv_process_midi_message [OF this, of e m ts]
    obtain r1 where r1: "process_midi_message e m ts (r\<lparr>message_queue := q\<rparr>) = Inr r1"
      "session_inv r1"
      by blast
    from Cons x have q: "message_queue r = (m, ts) # q" by simp
    from "1.IH" [OF Cons x [symmetric] r1(1) r1(2)] r1(1) q show ?thesis
      by (simp add: process_message_queue_Cons)
  qed
qed

lemma session_inv_stop_recording:
  assumes "session_inv r"
  shows "\<exists>r'. stop_recording e suffix sq sb r = Inr r' \<and> session_inv r'"
proof (cases "recording r")
  case False
  with assms show ?thesis by (simp add: stop_recording_def)
next
  case True
  have "\<exists>r1. (if sq then Inr (r\<lparr>recording := False, message_queue := []\<rparr>)
               else process_message_queue e (r\<lparr>recording := False\<rparr>)) = Inr r1 \<and> session_inv r1"
    using assms session_inv_process_message_queue [of "r\<lparr>recording := False\<rparr>" e]
    by simp
  then obtain r1 where r1: "(if sq then Inr (r\<lparr>recording := False, message_queue := []\<rparr>)
               else process_message_queue e (r\<lparr>recording := False\<rparr>)) = Inr r1"
    and "session_inv r1"
    by blast
  from session_inv_stop_recording_finish [OF this(2), of e suffix sb] True r1
  show ?thesis by (simp add: stop_recording_def)
qed

lemma session_inv_check_session_timeout:
  assumes "session_inv r"
  shows "\<exists>r'. check_session_timeout e r = Inr r' \<and> session_inv r'"
  using assms session_inv_stop_recording [OF assms, of e "[]" False False]
  by (auto simp add: check_session_timeout_def)

lemma session_inv_signal_handler:
  assumes "session_inv r"
  shows "\<exists>r'. signal_handler e r = Inr r' \<and> session_inv r'"
  using session_inv_stop_recording [of "r\<lparr>running := False\<rparr>" e "[]" False False] assms
  by (simp add: signal_handler_def)

lemma session_inv_step: "session_inv r \<Longrightarrow> session_inv (step r c)"
proof -
  assume inv: "session_inv r"
  obtain e k where c: "c = (e, k)" by (cases c)
  show ?thesis
  proof (cases k)
    case (Midi_callback m)
    with inv c show ?thesis by (simp add: midi_callback_def)
  next
    case Process_message_queue
    with inv c session_inv_process_message_queue [OF inv, of e] show ?thesis
      by (auto simp add: caught_def)
  next
    case Check_session_timeout
    with inv c session_inv_check_session_timeout [OF inv, of e] show ?thesis
      by (auto simp add: caught_def)
  next
    case Signal_handler
    with inv c session_inv_signal_handler [OF inv, of e] show ?thesis
      by (auto simp add: caught_def)
  qed
qed

lemma session_inv_foldl: "session_inv r \<Longrightarrow> session_inv (foldl step r cs)"
  by (induction cs arbitrary: r) (simp_all add: session_inv_step)

lemma session_inv_init: "session_inv init"
  by (simp add: session_inv_def well_formed_def init_def)

text \<open>
  C5. Whatever the port delivers and whatever the main loop does, in any order, every
  track of the recorder, the current one and the one of every file saved so far, is the
  tempo entry followed by entries whose tick deltas are integers of at least 0, and the
  first entry after the tempo entry has delta 0. That first delta is 0 because
  \<open>write_message\<close> on a track that holds the tempo entry only finds no last message time.
\<close>

theorem tick_deltas_of_every_session:
  "(\<forall>tr. current_track (run_calls cs) = Some tr \<or>
         (\<exists>f \<in> set (saved_files (run_calls cs)). tr \<in> set (tracks f)) \<longrightarrow>
      (\<exists>es. tr = tempo_msg # es \<and> (\<forall>e \<in> set es. 0 \<le> entry_time e) \<and>
            (es \<noteq> [] \<longrightarrow> entry_time (hd es) = 0))) \<and>
   (current_track r = Some [tempo_msg] \<and> last_message_time r = None \<longrightarrow>
      current_track (write_message m ts r) = Some [tempo_msg, Message (m\<lparr>msg_time := 0\<rparr>)])"
proof -
  have "session_inv (run_calls cs)"
    unfolding run_calls_def using session_inv_init by (rule session_inv_foldl)
  then have a: "\<forall>tr. current_track (run_calls cs) = Some tr \<or>
         (\<exists>f \<in> set (saved_files (run_calls cs)). tr \<in> set (tracks f)) \<longrightarrow> track_ok tr"
    by (auto simp add: session_inv_def list_all_iff)
  have "delta_ticks None ts = 0"
    by simp
  then have b: "current_track r = Some [tempo_msg] \<and> last_message_time r = None \<longrightarrow>
      current_track (write_message m ts r) = Some [tempo_msg, Message (m\<lparr>msg_time := 0\<rparr>)]"
    by (simp add: write_message_def)
  from a b show ?thesis
    unfolding track_ok_iff by blast
qed

theorem tick_deltas_of_every_session_witness:
  "current_track (run_calls two_sessions) = Some [tempo_msg, Message (Msg note_on 62 64)] \<and>
   saved_files (run_calls two_sessions) =
     [\<lparr>file_path = ''session_120000.mid'', ticks_per_beat = 480,
       tracks = [[tempo_msg, Message (Msg note_on 60 64),
                  Message ((Msg note_off 60 0)\<lparr>msg_time := 480\<rparr>)]]\<rparr>] \<and>
   (\<exists>es. [tempo_msg, Message (Msg note_on 60 64), Message ((Msg note_off 60 0)\<lparr>msg_time := 480\<rparr>)]
          = tempo_msg # es \<and> (\<forall>e \<in> set es. 0 \<le> entry_time e) \<and>
          (es \<noteq> [] \<longrightarrow> entry_time (hd es) = 0))"
proof -
  have d: "delta_ticks (Some 0) (1/2) = 480"
    by (simp add: delta_ticks_Some fl_def expo_def compute_bitlen round_even_def)
  have run: "run_calls two_sessions =
     init\<lparr>recording := True, last_activity := Some 1020, current_file := Some 480,
          current_track := Some [tempo_msg, Message (Msg note_on 62 64)],
          session_start_time := Some 20, first_message_time := Some 20,
          last_message_time := Some 20,
          saved_files := [\<lparr>file_path = ''session_120000.mid'', ticks_per_beat = 480,
            tracks = [[tempo_msg, Message (Msg note_on 60 64),
                       Message ((Msg note_off 60 0)\<lparr>msg_time := 480\<rparr>)]]\<rparr>],
          governor_log := [''powersave'']\<rparr>"
    by (simp add: two_sessions_def run_calls_def midi_callback_def caught_def e0_def
        Msg_def init_def process_message_queue.simps process_midi_message_def
        start_recording_def handle_shortcuts_def flush_counted_def
        flush_buffer_def write_message_def d Let_def
        check_session_timeout_def stop_recording_def stop_recording_finish_def
        flush_shortcut_buffers_def enter_low_power_mode_def truthy_def
        LOW_BLACK_NOTE_def HIGH_BLACK_NOTE_def SESSION_TIMEOUT_def empty_state_def
        TICKS_PER_BEAT_def DEFAULT_TEMPO_def)
  have f: "\<lparr>file_path = ''session_120000.mid'', ticks_per_beat = 480,
            tracks = [[tempo_msg, Message (Msg note_on 60 64),
                       Message ((Msg note_off 60 0)\<lparr>msg_time := 480\<rparr>)]]\<rparr>
           \<in> set (saved_files (run_calls two_sessions))"
    by (simp add: run init_def)
  from tick_deltas_of_every_session [of two_sessions init "Msg note_on 60 64" 0]
  have "\<exists>es. [tempo_msg, Message (Msg note_on 60 64), Message ((Msg note_off 60 0)\<lparr>msg_time := 480\<rparr>)]
          = tempo_msg # es \<and> (\<forall>e \<in> set es. 0 \<le> entry_time e) \<and>
          (es \<noteq> [] \<longrightarrow> entry_time (hd es) = 0)"
    using f by (elim conjE allE [where x = "[tempo_msg, Message (Msg note_on 60 64),
                       Message ((Msg note_off 60 0)\<lparr>msg_time := 480\<rparr>)]"]) force
  then show ?thesis
    by (simp add: run init_def)
qed

end
